theory Spec2Isabelle
  imports Main "HOL-Library.AList"
begin

section \<open>Strings\<close>

text \<open>
  Go strings are byte sequences; they are modelled as \<open>string\<close> (a list of 8-bit
  characters), so \<open>length\<close> is Go's \<open>len\<close>. The functions of package \<open>strings\<close> used
  by the adapter are written out.
\<close>

definition mdExt :: string where
  "mdExt = ''.md''"

definition hasSuffix :: "string \<Rightarrow> string \<Rightarrow> bool" where
  "hasSuffix s suf = (length suf \<le> length s \<and> drop (length s - length suf) s = suf)"

definition trimSuffix :: "string \<Rightarrow> string \<Rightarrow> string" where
  "trimSuffix s suf = (if hasSuffix s suf then take (length s - length suf) s else s)"

fun hasPrefix :: "string \<Rightarrow> string \<Rightarrow> bool" where
  "hasPrefix s [] = True"
| "hasPrefix [] (c # cs) = False"
| "hasPrefix (x # xs) (c # cs) = (x = c \<and> hasPrefix xs cs)"

fun containsStr :: "string \<Rightarrow> string \<Rightarrow> bool" where
  "containsStr [] substr = (substr = [])"
| "containsStr (x # xs) substr = (hasPrefix (x # xs) substr \<or> containsStr xs substr)"

text \<open>
  \<open>strings.ToLower\<close> has two paths. On a string of ASCII bytes only (every byte below
  \<open>utf8.RuneSelf\<close>, which is 128) it maps the bytes \<open>A..Z\<close> to \<open>a..z\<close> and keeps the
  others. On any other string it returns \<open>Map(unicode.ToLower, s)\<close>; that function of the
  standard library is the parameter \<open>unicodeLower\<close> of \<open>toLower\<close> and of every function that
  lowers a string, and what is proved holds for every such function.
\<close>

definition isASCII :: "string \<Rightarrow> bool" where
  "isASCII s = list_all (\<lambda>c. (of_char c :: nat) < 128) s"

definition toLowerChar :: "char \<Rightarrow> char" where
  "toLowerChar c =
     (let n = (of_char c :: nat) in if 65 \<le> n \<and> n \<le> 90 then char_of (n + 32) else c)"

definition toLower :: "(string \<Rightarrow> string) \<Rightarrow> string \<Rightarrow> string" where
  "toLower unicodeLower s = (if isASCII s then map toLowerChar s else unicodeLower s)"

text \<open>\<open>toMemoryName\<close> appends the \<open>.md\<close> extension for storage.\<close>

definition toMemoryName :: "string \<Rightarrow> string" where
  "toMemoryName name = (if hasSuffix name mdExt then name else name @ mdExt)"

text \<open>\<open>fromMemoryName\<close> strips the \<open>.md\<close> extension when returning names to the API.\<close>

definition fromMemoryName :: "string \<Rightarrow> string" where
  "fromMemoryName name = trimSuffix name mdExt"

text \<open>Helper for the case-insensitive check.\<close>

definition containsIgnoreCase :: "(string \<Rightarrow> string) \<Rightarrow> string \<Rightarrow> string \<Rightarrow> bool" where
  "containsIgnoreCase unicodeLower s substr =
     containsStr (toLower unicodeLower s) (toLower unicodeLower substr)"


section \<open>Data model (package adapter)\<close>

text \<open>
  \<open>File\<close> embeds \<open>FileMetadata\<close>, which a record extension expresses: the fields of the
  metadata are fields of the file, and \<open>metadataOf\<close> is the Go selector \<open>f.FileMetadata\<close>.
  Times are integers (a clock reading), sizes are \<open>int64\<close> values of lengths.
\<close>

record FileMetadata =
  ID :: string
  Name :: string
  MIMEType :: string
  ModifiedTime :: int
  Size :: int
  ETag :: string
  Parents :: "string list"
  Starred :: bool

record File = FileMetadata +
  Content :: string

definition metadataOf :: "File \<Rightarrow> FileMetadata" where
  "metadataOf f = FileMetadata.truncate f"

datatype error =
    ErrNotFound
  | ErrPreconditionFailed
  | Errorf string

text \<open>The text of an error, its \<open>Error()\<close>.\<close>

fun errorText :: "error \<Rightarrow> string" where
  "errorText ErrNotFound = ''resource not found''"
| "errorText ErrPreconditionFailed = ''precondition failed''"
| "errorText (Errorf text) = text"

definition folderMIME :: string where
  "folderMIME = ''application/vnd.google-apps.folder''"


section \<open>The ephemeral adapter (package memory), process-local mode\<close>

text \<open>
  \<open>MemoryAdapter\<close> with \<open>client == nil\<close>: every public operation runs its checks and then
  the \<open>...Map\<close> implementation on the map \<open>files\<close>. The Go map from ids to file pointers
  is an association list; the order of the list stands for the iteration order of the
  map. The values of \<open>time.Now()\<close> and \<open>uuid.New().String()\<close> that a call reads are
  arguments of the operation, in the order the call reads them. Every operation returns
  its result together with the adapter after the call.
\<close>

record MemoryAdapter =
  userID :: string
  files :: "(string \<times> File) list"
  BaseFolderID :: string

definition maxDemoContentSize :: nat where
  "maxDemoContentSize = 256 * 1024"

definition maxDemoTitleLength :: nat where
  "maxDemoTitleLength = 255"

definition maxDemoItemCount :: nat where
  "maxDemoItemCount = 50"

definition NewMemoryAdapter :: "string \<Rightarrow> string \<Rightarrow> MemoryAdapter" where
  "NewMemoryAdapter uid baseFolderID = \<lparr>userID = uid, files = [], BaseFolderID = baseFolderID\<rparr>"

definition countUserItems :: "MemoryAdapter \<Rightarrow> nat" where
  "countUserItems m = length (files m)"

text \<open>The metadata copy handed out by the read paths: non-folders lose the suffix.\<close>

definition externalMeta :: "File \<Rightarrow> FileMetadata" where
  "externalMeta f =
     (let meta = metadataOf f
      in if MIMEType meta \<noteq> folderMIME then meta\<lparr>Name := fromMemoryName (Name meta)\<rparr> else meta)"

definition listFilesMap :: "MemoryAdapter \<Rightarrow> string \<Rightarrow> error + FileMetadata list" where
  "listFilesMap m folderID =
     Inr (map (\<lambda>(k, f). externalMeta f)
            (filter (\<lambda>(k, f). folderID \<in> set (Parents f) \<or> (folderID = ''root'' \<and> Parents f = []))
               (files m)))"

definition ListFiles :: "MemoryAdapter \<Rightarrow> string \<Rightarrow> error + FileMetadata list" where
  "ListFiles m folderID =
     (let targetFolderID =
            (if folderID = '''' then (if BaseFolderID m \<noteq> '''' then BaseFolderID m else ''root'')
             else folderID)
      in listFilesMap m targetFolderID)"

definition getFileMap :: "MemoryAdapter \<Rightarrow> string \<Rightarrow> error + File" where
  "getFileMap m fileID =
     (case map_of (files m) fileID of
        None \<Rightarrow> Inl ErrNotFound
      | Some f \<Rightarrow>
          Inr (if MIMEType f \<noteq> folderMIME then f\<lparr>Name := fromMemoryName (Name f)\<rparr> else f))"

definition GetFile :: "MemoryAdapter \<Rightarrow> string \<Rightarrow> error + File" where
  "GetFile m fileID = getFileMap m fileID"

definition saveFileMap ::
  "MemoryAdapter \<Rightarrow> string \<Rightarrow> string \<Rightarrow> string \<Rightarrow> int \<Rightarrow> string
     \<Rightarrow> (error + FileMetadata) \<times> MemoryAdapter" where
  "saveFileMap m fileID content etag now newTag =
     (case map_of (files m) fileID of
        None \<Rightarrow> (Inl ErrNotFound, m)
      | Some f \<Rightarrow>
          if etag \<noteq> '''' \<and> ETag f \<noteq> etag then (Inl ErrPreconditionFailed, m)
          else
            (let f' = f\<lparr>Name := toMemoryName (Name f), ModifiedTime := now,
                        Size := int (length content), ETag := newTag, Content := content\<rparr>
             in (Inr (metadataOf f'), m\<lparr>files := AList.update fileID f' (files m)\<rparr>)))"

definition SaveFile ::
  "MemoryAdapter \<Rightarrow> string \<Rightarrow> string \<Rightarrow> string \<Rightarrow> int \<Rightarrow> string
     \<Rightarrow> (error + FileMetadata) \<times> MemoryAdapter" where
  "SaveFile m fileID content etag now newTag =
     (if length content > maxDemoContentSize
      then (Inl (Errorf ''content too large (max 262144 bytes)''), m)
      else saveFileMap m fileID content etag now newTag)"

definition createFileMap ::
  "MemoryAdapter \<Rightarrow> string \<Rightarrow> string \<Rightarrow> string \<Rightarrow> string \<Rightarrow> int \<Rightarrow> string
     \<Rightarrow> (error + FileMetadata) \<times> MemoryAdapter" where
  "createFileMap m name content folderID newID now newTag =
     (let f = \<lparr>ID = newID, Name = toMemoryName name, MIMEType = ''text/markdown'',
                ModifiedTime = now, Size = int (length content), ETag = newTag,
                Parents = [folderID], Starred = False, Content = content\<rparr>
      in (Inr (metadataOf f), m\<lparr>files := AList.update newID f (files m)\<rparr>))"

definition CreateFile ::
  "MemoryAdapter \<Rightarrow> string \<Rightarrow> string \<Rightarrow> string \<Rightarrow> string \<Rightarrow> int \<Rightarrow> string
     \<Rightarrow> (error + FileMetadata) \<times> MemoryAdapter" where
  "CreateFile m name content folderID newID now newTag =
     (if length name > maxDemoTitleLength
      then (Inl (Errorf ''name too long (max 255 characters)''), m)
      else if length content > maxDemoContentSize
      then (Inl (Errorf ''content too large (max 262144 bytes)''), m)
      else if countUserItems m \<ge> maxDemoItemCount
      then (Inl (Errorf ''item limit reached for demo mode (max 50 items)''), m)
      else
        (let targetFolderID =
               (if folderID = '''' then (if BaseFolderID m \<noteq> '''' then BaseFolderID m else ''root'')
                else folderID)
         in createFileMap m name content targetFolderID newID now newTag))"

definition createFolderMap ::
  "MemoryAdapter \<Rightarrow> string \<Rightarrow> string list \<Rightarrow> string \<Rightarrow> int \<Rightarrow> string
     \<Rightarrow> (error + FileMetadata) \<times> MemoryAdapter" where
  "createFolderMap m name parents newID now newTag =
     (let f = \<lparr>ID = newID, Name = name, MIMEType = folderMIME,
                ModifiedTime = now, Size = 0, ETag = newTag,
                Parents = parents, Starred = False, Content = []\<rparr>
      in (Inr (metadataOf f), m\<lparr>files := AList.update newID f (files m)\<rparr>))"

definition CreateFolder ::
  "MemoryAdapter \<Rightarrow> string \<Rightarrow> string list \<Rightarrow> string \<Rightarrow> int \<Rightarrow> string
     \<Rightarrow> (error + FileMetadata) \<times> MemoryAdapter" where
  "CreateFolder m name parents newID now newTag =
     (if length name > maxDemoTitleLength
      then (Inl (Errorf ''name too long (max 255 characters)''), m)
      else if countUserItems m \<ge> maxDemoItemCount
      then (Inl (Errorf ''item limit reached for demo mode (max 50 items)''), m)
      else
        (let targetParents =
               (if parents = [] then (if BaseFolderID m \<noteq> '''' then [BaseFolderID m] else [''root''])
                else parents)
         in createFolderMap m name targetParents newID now newTag))"

definition duplicateFileMap ::
  "MemoryAdapter \<Rightarrow> string \<Rightarrow> string \<Rightarrow> int \<Rightarrow> string
     \<Rightarrow> (error + FileMetadata) \<times> MemoryAdapter" where
  "duplicateFileMap m fileID newID now newTag =
     (case map_of (files m) fileID of
        None \<Rightarrow> (Inl ErrNotFound, m)
      | Some orig \<Rightarrow>
          (let newName = ''Copy of '' @ Name orig;
               newContent = Content orig;
               f = \<lparr>ID = newID, Name = toMemoryName newName, MIMEType = MIMEType orig,
                    ModifiedTime = now, Size = int (length newContent), ETag = newTag,
                    Parents = Parents orig, Starred = False, Content = newContent\<rparr>;
               meta = metadataOf f
           in (Inr (meta\<lparr>Name := fromMemoryName (Name meta)\<rparr>),
               m\<lparr>files := AList.update newID f (files m)\<rparr>)))"

definition DuplicateFile ::
  "MemoryAdapter \<Rightarrow> string \<Rightarrow> string \<Rightarrow> int \<Rightarrow> string
     \<Rightarrow> (error + FileMetadata) \<times> MemoryAdapter" where
  "DuplicateFile m fileID newID now newTag =
     (if countUserItems m \<ge> maxDemoItemCount
      then (Inl (Errorf ''item limit reached for demo mode (max 50 items)''), m)
      else duplicateFileMap m fileID newID now newTag)"

definition setStarredMap ::
  "MemoryAdapter \<Rightarrow> string \<Rightarrow> bool \<Rightarrow> int \<Rightarrow> string
     \<Rightarrow> (error + FileMetadata) \<times> MemoryAdapter" where
  "setStarredMap m fileID starred now newTag =
     (case map_of (files m) fileID of
        None \<Rightarrow> (Inl ErrNotFound, m)
      | Some f \<Rightarrow>
          (let f' = f\<lparr>ModifiedTime := now, ETag := newTag, Starred := starred\<rparr>
           in (Inr (metadataOf f'), m\<lparr>files := AList.update fileID f' (files m)\<rparr>)))"

definition SetStarred ::
  "MemoryAdapter \<Rightarrow> string \<Rightarrow> bool \<Rightarrow> int \<Rightarrow> string
     \<Rightarrow> (error + FileMetadata) \<times> MemoryAdapter" where
  "SetStarred m fileID starred now newTag = setStarredMap m fileID starred now newTag"

definition renameFileMap ::
  "MemoryAdapter \<Rightarrow> string \<Rightarrow> string \<Rightarrow> int \<Rightarrow> string
     \<Rightarrow> (error + FileMetadata) \<times> MemoryAdapter" where
  "renameFileMap m fileID newName now newTag =
     (case map_of (files m) fileID of
        None \<Rightarrow> (Inl ErrNotFound, m)
      | Some f \<Rightarrow>
          (let f' = f\<lparr>Name := toMemoryName newName, ModifiedTime := now, ETag := newTag\<rparr>
           in (Inr (metadataOf f'), m\<lparr>files := AList.update fileID f' (files m)\<rparr>)))"

definition RenameFile ::
  "MemoryAdapter \<Rightarrow> string \<Rightarrow> string \<Rightarrow> int \<Rightarrow> string
     \<Rightarrow> (error + FileMetadata) \<times> MemoryAdapter" where
  "RenameFile m fileID newName now newTag =
     (if length newName > maxDemoTitleLength
      then (Inl (Errorf ''name too long (max 255 characters)''), m)
      else renameFileMap m fileID newName now newTag)"


subsection \<open>SaveFile on the table\<close>

text \<open>
  With a client, \<open>GetFile\<close> and \<open>SaveFile\<close> work on the table of file items, keyed by
  \<open>pk\<close>. A \<open>FileItem\<close> has the fields of a file and three of its own, named after their
  table attributes. The table is taken to answer every request. \<open>SaveFile\<close> reads the
  clock twice: \<open>now\<close> for the modification time and \<open>unixNow\<close>, in seconds, for the
  sliding expiry.
\<close>

record FileItem = File +
  pk :: string
  user_id :: string
  ttl :: int

definition GetFile_table :: "(string \<rightharpoonup> FileItem) \<Rightarrow> string \<Rightarrow> error + File" where
  "GetFile_table tbl fileID =
     (case tbl fileID of
        None \<Rightarrow> Inl ErrNotFound
      | Some item \<Rightarrow>
          Inr \<lparr>ID = ID item, Name = fromMemoryName (Name item), MIMEType = MIMEType item,
               ModifiedTime = ModifiedTime item, Size = Size item, ETag = ETag item,
               Parents = Parents item, Starred = Starred item, Content = Content item\<rparr>)"

definition SaveFile_table ::
  "(string \<rightharpoonup> FileItem) \<Rightarrow> string \<Rightarrow> string \<Rightarrow> string \<Rightarrow> string \<Rightarrow> int \<Rightarrow> string \<Rightarrow> int
     \<Rightarrow> (error + FileMetadata) \<times> (string \<rightharpoonup> FileItem)" where
  "SaveFile_table tbl uid fileID content etag now newTag unixNow =
     (if length content > maxDemoContentSize
      then (Inl (Errorf ''content too large (max 262144 bytes)''), tbl)
      else case GetFile_table tbl fileID of
        Inl err \<Rightarrow> (Inl err, tbl)
      | Inr f \<Rightarrow>
          if etag \<noteq> '''' \<and> ETag f \<noteq> etag then (Inl ErrPreconditionFailed, tbl)
          else
            (let f' = f\<lparr>ModifiedTime := now, Size := int (length content), ETag := newTag,
                        Content := content\<rparr>;
                 item = \<lparr>ID = ID f', Name = toMemoryName (Name f'), MIMEType = MIMEType f',
                         ModifiedTime = ModifiedTime f', Size = Size f', ETag = ETag f',
                         Parents = Parents f', Starred = False, Content = Content f',
                         pk = ID f', user_id = uid, ttl = unixNow + 60 * 60\<rparr>;
                 meta = metadataOf f'
             in (Inr (meta\<lparr>Name := fromMemoryName (Name meta)\<rparr>), tbl(pk item \<mapsto> item))))"


subsection \<open>Recursive delete\<close>

text \<open>
  \<open>deleteFileMap\<close> collects the ids of the items that name \<open>fileID\<close> among their parents,
  deletes each of them by a recursive call whose error is dropped, and then removes
  \<open>fileID\<close>. Nothing bounds the recursion, so the function is partial: the value \<open>None\<close>
  stands for a call that does not return. \<open>forEachOpt\<close> is the \<open>for ... range\<close> loop over
  a slice whose body may fail to return.
\<close>

fun forEachOpt :: "('a \<Rightarrow> 's \<Rightarrow> 's option) \<Rightarrow> 'a list \<Rightarrow> 's \<Rightarrow> 's option" where
  "forEachOpt body [] s = Some s"
| "forEachOpt body (x # xs) s = Option.bind (body x s) (forEachOpt body xs)"

lemma forEachOpt_mono [partial_function_mono]:
  assumes "\<And>x s. mono_option (\<lambda>f. body f x s)"
  shows "mono_option (\<lambda>f. forEachOpt (body f) xs s)"
proof (induction xs arbitrary: s)
  case Nil
  show ?case by (simp add: option.const_mono)
next
  case (Cons x xs)
  show ?case
    by (simp, rule bind_mono) (rule assms, rule Cons.IH)
qed

definition childrenOf :: "(string \<times> File) list \<Rightarrow> string \<Rightarrow> string list" where
  "childrenOf fs fileID = map fst (filter (\<lambda>(k, f). fileID \<in> set (Parents f)) fs)"

partial_function (option) deleteFileMap ::
  "MemoryAdapter \<Rightarrow> string \<Rightarrow> ((error + unit) \<times> MemoryAdapter) option" where
  "deleteFileMap m fileID =
     (case map_of (files m) fileID of
        None \<Rightarrow> Some (Inl ErrNotFound, m)
      | Some f \<Rightarrow>
          Option.bind
            (forEachOpt
               (\<lambda>childID m'. Option.bind (deleteFileMap m' childID) (\<lambda>r. Some (snd r)))
               (childrenOf (files m) fileID) m)
            (\<lambda>m'. Some (Inr (), m'\<lparr>files := AList.delete fileID (files m')\<rparr>)))"

definition DeleteFile ::
  "MemoryAdapter \<Rightarrow> string \<Rightarrow> ((error + unit) \<times> MemoryAdapter) option" where
  "DeleteFile m fileID = deleteFileMap m fileID"


subsection \<open>Scoping to the base folder\<close>

text \<open>
  \<open>isDescendant\<close> checks recursively if \<open>targetFolderID\<close> is an ancestor of the file. The
  loop over \<open>fileParents\<close> is the recursion on the rest of the list; the recursive check
  is the call on \<open>nextParents\<close>. There is no bound on the depth, so the function is
  partial as well.
\<close>

partial_function (option) isDescendant ::
  "string list \<Rightarrow> string \<Rightarrow> (string \<rightharpoonup> string list) \<Rightarrow> bool option" where
  "isDescendant fileParents targetFolderID allItems =
     (if targetFolderID = ''root'' then Some True
      else case fileParents of
        [] \<Rightarrow> Some False
      | p # rest \<Rightarrow>
          if p = targetFolderID then Some True
          else if p = '''' \<or> p = ''root'' then isDescendant rest targetFolderID allItems
          else (case allItems p of
                  Some nextParents \<Rightarrow>
                    Option.bind (isDescendant nextParents targetFolderID allItems)
                      (\<lambda>found. if found then Some True
                                else isDescendant rest targetFolderID allItems)
                | None \<Rightarrow> isDescendant rest targetFolderID allItems))"

text \<open>
  The walk of the drive adapter. The remote service is the map \<open>remote\<close> from an id to the
  parents that \<open>Files.Get\<close> reports (\<open>None\<close>: the call fails); the cache of outcomes per
  probed ancestor is threaded through the walk and returned with the answer.
\<close>

partial_function (option) Drive_isDescendant ::
  "(string \<rightharpoonup> string list) \<Rightarrow> string list \<Rightarrow> string \<Rightarrow> (string \<rightharpoonup> bool)
     \<Rightarrow> (bool \<times> (string \<rightharpoonup> bool)) option" where
  "Drive_isDescendant remote fileParents targetFolderID cache =
     (if targetFolderID = ''root'' then Some (True, cache)
      else case fileParents of
        [] \<Rightarrow> Some (False, cache)
      | p # rest \<Rightarrow>
          if p = targetFolderID then Some (True, cache)
          else if p = '''' \<or> p = ''root''
          then Drive_isDescendant remote rest targetFolderID cache
          else (case cache p of
                  Some val \<Rightarrow>
                    if val then Some (True, cache)
                    else Drive_isDescendant remote rest targetFolderID cache
                | None \<Rightarrow>
                    (case remote p of
                       None \<Rightarrow> Drive_isDescendant remote rest targetFolderID (cache(p \<mapsto> False))
                     | Some parents \<Rightarrow>
                         Option.bind (Drive_isDescendant remote parents targetFolderID cache)
                           (\<lambda>(found, cache').
                              if found then Some (True, cache'(p \<mapsto> True))
                              else Drive_isDescendant remote rest targetFolderID
                                     (cache'(p \<mapsto> False))))))"

text \<open>The parent map built at the start of the recursive listings.\<close>

definition buildParentMap :: "(string \<times> File) list \<Rightarrow> (string \<rightharpoonup> string list)" where
  "buildParentMap fs = fold (\<lambda>(k, f) parentMap. parentMap(ID f \<mapsto> Parents f)) fs Map.empty"

definition scopeTarget :: "MemoryAdapter \<Rightarrow> string" where
  "scopeTarget m = (if BaseFolderID m \<noteq> '''' then BaseFolderID m else ''root'')"

fun starredLoop ::
  "string \<Rightarrow> (string \<rightharpoonup> string list) \<Rightarrow> (string \<times> File) list \<Rightarrow> FileMetadata list option" where
  "starredLoop target parentMap [] = Some []"
| "starredLoop target parentMap ((k, f) # rest) =
     (if Starred f then
        (if MIMEType f \<noteq> folderMIME \<and> \<not> hasSuffix (Name f) ''.md''
         then starredLoop target parentMap rest
         else Option.bind (isDescendant (Parents f) target parentMap)
                (\<lambda>inScope.
                   if inScope
                   then Option.bind (starredLoop target parentMap rest)
                          (\<lambda>found. Some (externalMeta f # found))
                   else starredLoop target parentMap rest))
      else starredLoop target parentMap rest)"

definition listStarredMap :: "MemoryAdapter \<Rightarrow> (error + FileMetadata list) option" where
  "listStarredMap m =
     map_option Inr (starredLoop (scopeTarget m) (buildParentMap (files m)) (files m))"

definition ListStarred :: "MemoryAdapter \<Rightarrow> (error + FileMetadata list) option" where
  "ListStarred m = listStarredMap m"

fun searchLoop ::
  "(string \<Rightarrow> string) \<Rightarrow> string \<Rightarrow> string \<Rightarrow> (string \<rightharpoonup> string list)
     \<Rightarrow> (string \<times> File) list \<Rightarrow> FileMetadata list option" where
  "searchLoop unicodeLower query target parentMap [] = Some []"
| "searchLoop unicodeLower query target parentMap ((k, f) # rest) =
     (if MIMEType f = folderMIME then searchLoop unicodeLower query target parentMap rest
      else if \<not> hasSuffix (Name f) ''.md''
      then searchLoop unicodeLower query target parentMap rest
      else Option.bind (isDescendant (Parents f) target parentMap)
             (\<lambda>inScope.
                if \<not> inScope then searchLoop unicodeLower query target parentMap rest
                else if containsIgnoreCase unicodeLower (Name f) query
                        \<or> containsIgnoreCase unicodeLower (Content f) query
                then Option.bind (searchLoop unicodeLower query target parentMap rest)
                       (\<lambda>found. Some (externalMeta f # found))
                else searchLoop unicodeLower query target parentMap rest))"

definition searchFilesMap ::
  "(string \<Rightarrow> string) \<Rightarrow> MemoryAdapter \<Rightarrow> string \<Rightarrow> (error + FileMetadata list) option" where
  "searchFilesMap unicodeLower m query =
     map_option Inr
       (searchLoop unicodeLower query (scopeTarget m) (buildParentMap (files m)) (files m))"

definition SearchFiles ::
  "(string \<Rightarrow> string) \<Rightarrow> MemoryAdapter \<Rightarrow> string \<Rightarrow> (error + FileMetadata list) option" where
  "SearchFiles unicodeLower m query = searchFilesMap unicodeLower m query"


section \<open>Session locks (package session)\<close>

text \<open>
  An \<open>EditingSession\<close> is the lock record. \<open>ExpiresAt\<close> is a Unix time in seconds; the
  reading of \<open>time.Now().Unix()\<close> is the argument \<open>now\<close> of each operation. The time to
  live is kept in whole seconds, the value of \<open>int64(ttlDuration.Seconds())\<close>; both
  constructors set it to \<open>DefaultTTL\<close>, five minutes. Clock readings are far from the
  bounds of \<open>int64\<close>, so the sums are taken in the integers.
\<close>

record EditingSession =
  FileID :: string
  UserID :: string
  ExpiresAt :: int

definition DefaultTTL :: int where
  "DefaultTTL = 5 * 60"

subsection \<open>MockLocker: the in-memory map\<close>

record MockLocker =
  locks :: "string \<rightharpoonup> EditingSession"
  ttlDuration :: int

definition NewMockLocker :: MockLocker where
  "NewMockLocker = \<lparr>locks = Map.empty, ttlDuration = DefaultTTL\<rparr>"

definition MockLocker_AcquireLock ::
  "MockLocker \<Rightarrow> string \<Rightarrow> string \<Rightarrow> int \<Rightarrow> (error + EditingSession) \<times> MockLocker" where
  "MockLocker_AcquireLock l fileID uid now =
     (let expiresAt = now + ttlDuration l;
          session = \<lparr>FileID = fileID, UserID = uid, ExpiresAt = expiresAt\<rparr>;
          granted = (Inr session, l\<lparr>locks := (locks l)(fileID \<mapsto> session)\<rparr>)
      in case locks l fileID of
           Some existing \<Rightarrow>
             if ExpiresAt existing > now \<and> UserID existing \<noteq> uid
             then (Inl (Errorf ''file is locked by another user''), l)
             else granted
         | None \<Rightarrow> granted)"

definition MockLocker_Heartbeat ::
  "MockLocker \<Rightarrow> string \<Rightarrow> string \<Rightarrow> int \<Rightarrow> (error + EditingSession) \<times> MockLocker" where
  "MockLocker_Heartbeat l fileID uid now =
     (case locks l fileID of
        None \<Rightarrow> (Inl (Errorf ''lock not found or not owned by user''), l)
      | Some existing \<Rightarrow>
          if UserID existing \<noteq> uid
          then (Inl (Errorf ''lock not found or not owned by user''), l)
          else
            (let existing' = existing\<lparr>ExpiresAt := now + ttlDuration l\<rparr>
             in (Inr existing', l\<lparr>locks := (locks l)(fileID \<mapsto> existing')\<rparr>)))"

definition MockLocker_ReleaseLock ::
  "MockLocker \<Rightarrow> string \<Rightarrow> string \<Rightarrow> error option \<times> MockLocker" where
  "MockLocker_ReleaseLock l fileID uid =
     (case locks l fileID of
        None \<Rightarrow> (Some (Errorf ''lock not found or not owned by user''), l)
      | Some existing \<Rightarrow>
          if UserID existing \<noteq> uid
          then (Some (Errorf ''lock not found or not owned by user''), l)
          else (None, l\<lparr>locks := (locks l)(fileID := None)\<rparr>))"

definition MockLocker_GetLockStatus ::
  "MockLocker \<Rightarrow> string \<Rightarrow> int \<Rightarrow> error + EditingSession option" where
  "MockLocker_GetLockStatus l fileID now =
     (case locks l fileID of
        None \<Rightarrow> Inr None
      | Some existing \<Rightarrow> if ExpiresAt existing < now then Inr None else Inr (Some existing))"

subsection \<open>LockManager: conditional writes on the lock table\<close>

text \<open>
  The table is keyed by \<open>file_id\<close>. A conditional request evaluates its condition on
  the stored item and writes only if it holds; otherwise the client returns an error.
  The text of that error comes from the SDK, not from this repository, and names the
  operation that failed: it is the field \<open>conditionFailedText\<close>, a function of the name
  of the operation. A condition on an attribute of an absent item is false, and
  \<open>attribute_not_exists(file_id)\<close> holds exactly for an absent item. The table is taken
  to answer every request.
\<close>

record LockTable =
  items :: "string \<rightharpoonup> EditingSession"
  conditionFailedText :: "string \<Rightarrow> string"

record LockManager =
  tableName :: string
  ttlSeconds :: int

definition NewLockManager :: "string \<Rightarrow> LockManager" where
  "NewLockManager name = \<lparr>tableName = name, ttlSeconds = DefaultTTL\<rparr>"

definition AcquireLock ::
  "LockManager \<Rightarrow> LockTable \<Rightarrow> string \<Rightarrow> string \<Rightarrow> int
     \<Rightarrow> (error + EditingSession) \<times> LockTable" where
  "AcquireLock mgr tbl fileID uid now =
     (let expiresAt = now + ttlSeconds mgr;
          session = \<lparr>FileID = fileID, UserID = uid, ExpiresAt = expiresAt\<rparr>;
          condition =
            (case items tbl fileID of
               None \<Rightarrow> True
             | Some item \<Rightarrow> ExpiresAt item < now \<or> UserID item = uid)
      in if condition then (Inr session, tbl\<lparr>items := (items tbl)(fileID \<mapsto> session)\<rparr>)
         else if conditionFailedText tbl ''PutItem'' = ''ConditionalCheckFailedException''
         then (Inl (Errorf ''file is locked by another user''), tbl)
         else (Inl (Errorf (''failed to acquire lock: '' @ conditionFailedText tbl ''PutItem'')),
               tbl))"

definition Heartbeat ::
  "LockManager \<Rightarrow> LockTable \<Rightarrow> string \<Rightarrow> string \<Rightarrow> int
     \<Rightarrow> (error + EditingSession) \<times> LockTable" where
  "Heartbeat mgr tbl fileID uid now =
     (let expiresAt = now + ttlSeconds mgr
      in case items tbl fileID of
           None \<Rightarrow>
             (Inl (Errorf (''failed to send heartbeat: '' @ conditionFailedText tbl ''UpdateItem'')),
              tbl)
         | Some item \<Rightarrow>
             if UserID item = uid
             then (let item' = item\<lparr>ExpiresAt := expiresAt\<rparr>
                   in (Inr item', tbl\<lparr>items := (items tbl)(fileID \<mapsto> item')\<rparr>))
             else (Inl (Errorf (''failed to send heartbeat: ''
                                  @ conditionFailedText tbl ''UpdateItem'')), tbl))"

definition ReleaseLock ::
  "LockManager \<Rightarrow> LockTable \<Rightarrow> string \<Rightarrow> string \<Rightarrow> error option \<times> LockTable" where
  "ReleaseLock mgr tbl fileID uid =
     (case items tbl fileID of
        None \<Rightarrow>
          (Some (Errorf (''failed to release lock: '' @ conditionFailedText tbl ''DeleteItem'')),
           tbl)
      | Some item \<Rightarrow>
          if UserID item = uid then (None, tbl\<lparr>items := (items tbl)(fileID := None)\<rparr>)
          else (Some (Errorf (''failed to release lock: ''
                                @ conditionFailedText tbl ''DeleteItem'')), tbl))"

definition GetLockStatus ::
  "LockManager \<Rightarrow> LockTable \<Rightarrow> string \<Rightarrow> int \<Rightarrow> error + EditingSession option" where
  "GetLockStatus mgr tbl fileID now =
     (case items tbl fileID of
        None \<Rightarrow> Inr None
      | Some session \<Rightarrow> if ExpiresAt session < now then Inr None else Inr (Some session))"


section \<open>Storage providers\<close>

text \<open>
  \<open>GetAdapter\<close> hands out pointers to adapters, and the claim about caching is about
  which pointer two calls return. Adapters therefore live in a heap, a list indexed by
  address; allocating appends to it. The auth service is the table of user tokens and
  the outcome of decrypting a refresh token; \<open>None\<close> as the provider's auth service is
  the nil pointer.
\<close>

record UserToken =
  EncryptedRefreshToken :: string
  TokenBaseFolderID :: string

record AuthService =
  tokens :: "string \<rightharpoonup> UserToken"
  kmsDecrypt :: "string \<rightharpoonup> string"

definition GetUserToken :: "AuthService \<Rightarrow> string \<Rightarrow> error + UserToken" where
  "GetUserToken s uid =
     (case tokens s uid of None \<Rightarrow> Inl (Errorf ''user not found'') | Some t \<Rightarrow> Inr t)"

definition GetClient :: "AuthService \<Rightarrow> string \<Rightarrow> error + string" where
  "GetClient s uid =
     (case tokens s uid of
        None \<Rightarrow> Inl (Errorf ''user not found'')
      | Some t \<Rightarrow>
          (case kmsDecrypt s (EncryptedRefreshToken t) of
             None \<Rightarrow> Inl (Errorf ''failed to decrypt refresh token'')
           | Some refreshToken \<Rightarrow> Inr refreshToken))"

subsection \<open>The provider of package memory\<close>

record Provider =
  authService :: "AuthService option"
  stores :: "string \<rightharpoonup> nat"

definition NewProvider :: "AuthService option \<Rightarrow> Provider" where
  "NewProvider svc = \<lparr>authService = svc, stores = Map.empty\<rparr>"

definition currentBaseFolder :: "Provider \<Rightarrow> string \<Rightarrow> string option" where
  "currentBaseFolder p uid =
     (case authService p of
        None \<Rightarrow> None
      | Some svc \<Rightarrow>
          (case GetUserToken svc uid of Inl err \<Rightarrow> None | Inr token \<Rightarrow> Some (TokenBaseFolderID token)))"

definition GetAdapter ::
  "Provider \<Rightarrow> MemoryAdapter list \<Rightarrow> string \<Rightarrow> (error + nat) \<times> Provider \<times> MemoryAdapter list" where
  "GetAdapter p heap uid =
     (let (a, p1, heap1) =
            (case stores p uid of
               Some cached \<Rightarrow> (cached, p, heap)
             | None \<Rightarrow>
                 (let baseFolderID = (case currentBaseFolder p uid of None \<Rightarrow> '''' | Some b \<Rightarrow> b)
                  in (length heap,
                      p\<lparr>stores := (stores p)(uid \<mapsto> length heap)\<rparr>,
                      heap @ [NewMemoryAdapter uid baseFolderID])))
      in case currentBaseFolder p1 uid of
           None \<Rightarrow> (Inr a, p1, heap1)
         | Some b \<Rightarrow> (Inr a, p1, heap1[a := (heap1 ! a)\<lparr>BaseFolderID := b\<rparr>]))"

text \<open>
  Every cached pointer is live: it points into the heap. A run of calls hands the
  provider one call after the other; before each call the data of the auth service may
  have changed, so a call is the auth service at that moment together with the tenant.
  The run returns the results in order, and the provider and the heap after the last
  call.
\<close>

definition cacheLive :: "Provider \<Rightarrow> MemoryAdapter list \<Rightarrow> bool" where
  "cacheLive p heap = (\<forall>u a. stores p u = Some a \<longrightarrow> a < length heap)"

fun GetAdapterCalls ::
  "Provider \<Rightarrow> MemoryAdapter list \<Rightarrow> (AuthService option \<times> string) list
     \<Rightarrow> (error + nat) list \<times> Provider \<times> MemoryAdapter list" where
  "GetAdapterCalls p heap [] = ([], p, heap)"
| "GetAdapterCalls p heap ((svc, uid) # calls) =
     (case GetAdapter (p\<lparr>authService := svc\<rparr>) heap uid of
        (r, p1, heap1) \<Rightarrow>
          (case GetAdapterCalls p1 heap1 calls of
             (rs, p2, heap2) \<Rightarrow> (r # rs, p2, heap2)))"

subsection \<open>The provider of package googledrive\<close>

record DriveAdapter =
  service :: string
  DriveBaseFolderID :: string

record DriveProvider =
  driveAuthService :: AuthService

definition NewDriveAdapter :: "string \<Rightarrow> string \<Rightarrow> DriveAdapter" where
  "NewDriveAdapter client baseFolderID = \<lparr>service = client, DriveBaseFolderID = baseFolderID\<rparr>"

definition Drive_GetAdapter ::
  "DriveProvider \<Rightarrow> DriveAdapter list \<Rightarrow> string \<Rightarrow> (error + nat) \<times> DriveAdapter list" where
  "Drive_GetAdapter p heap uid =
     (let baseFolderID =
            (case GetUserToken (driveAuthService p) uid of
               Inl err \<Rightarrow> '''' | Inr token \<Rightarrow> TokenBaseFolderID token)
      in case GetClient (driveAuthService p) uid of
           Inl err \<Rightarrow>
             (Inl (Errorf (''failed to get authenticated client: '' @ errorText err)), heap)
         | Inr client \<Rightarrow> (Inr (length heap), heap @ [NewDriveAdapter client baseFolderID]))"


section \<open>What an external response shows\<close>

text \<open>
  \<open>strippedIn m md\<close>: the metadata \<open>md\<close> is the metadata of an item stored in \<open>m\<close> with
  the reserved suffix taken off its name.
\<close>

definition strippedIn :: "MemoryAdapter \<Rightarrow> FileMetadata \<Rightarrow> bool" where
  "strippedIn m md =
     (\<exists>(k, f) \<in> set (files m). md = (metadataOf f)\<lparr>Name := fromMemoryName (Name f)\<rparr>)"


section \<open>Example states\<close>

text \<open>The adapter after \<open>CreateFile("a", "x", "root")\<close> on a new adapter.\<close>

definition exampleNote :: File where
  "exampleNote = \<lparr>ID = ''n1'', Name = ''a.md'', MIMEType = ''text/markdown'', ModifiedTime = 0,
      Size = 1, ETag = ''e1'', Parents = [''root''], Starred = False, Content = ''x''\<rparr>"

definition exampleStore :: MemoryAdapter where
  "exampleStore = \<lparr>userID = ''u1'', files = [(''n1'', exampleNote)], BaseFolderID = ''''\<rparr>"

text \<open>The same note as a row of the table.\<close>

definition exampleRow :: FileItem where
  "exampleRow = \<lparr>ID = ''n1'', Name = ''a.md'', MIMEType = ''text/markdown'', ModifiedTime = 0,
      Size = 1, ETag = ''e1'', Parents = [''root''], Starred = False, Content = ''x'',
      pk = ''n1'', user_id = ''u1'', ttl = 3600\<rparr>"

text \<open>
  A folder \<open>Parent\<close> under the root, a folder \<open>Child\<close> in it, a starred note in \<open>Child\<close>,
  and a second note directly under the root.
\<close>

definition exampleItem ::
  "string \<Rightarrow> string \<Rightarrow> string \<Rightarrow> string list \<Rightarrow> bool \<Rightarrow> string \<Rightarrow> string \<times> File" where
  "exampleItem i name mime parents starred content =
     (i, \<lparr>ID = i, Name = name, MIMEType = mime, ModifiedTime = 0,
          Size = int (length content), ETag = ''t-'' @ i, Parents = parents, Starred = starred,
          Content = content\<rparr>)"

definition exampleTree :: "string \<Rightarrow> MemoryAdapter" where
  "exampleTree base =
     \<lparr>userID = ''u1'',
      files = [exampleItem ''P'' ''Parent'' folderMIME [''root''] False '''',
               exampleItem ''C'' ''Child'' folderMIME [''P''] False '''',
               exampleItem ''N'' ''Note.md'' ''text/markdown'' [''C''] True ''hello World'',
               exampleItem ''X'' ''x.md'' ''text/markdown'' [''root''] False ''other''],
      BaseFolderID = base\<rparr>"


section \<open>Reaching the base folder\<close>

text \<open>
  The relation that the ancestor walk follows: \<open>(p, q) \<in> parentEdges allItems\<close> when the
  parent map lists \<open>q\<close> among the parents of \<open>p\<close> and \<open>p\<close> is neither the empty id nor
  \<open>root\<close> (the walk does not look those two up). A list of parents reaches the target
  when the target is the literal \<open>root\<close>, the universal ancestor, or a chain of such
  edges leads from one of the parents to the target.
\<close>

definition parentEdges :: "(string \<rightharpoonup> string list) \<Rightarrow> (string \<times> string) set" where
  "parentEdges allItems =
     {(p, q). p \<noteq> '''' \<and> p \<noteq> ''root'' \<and> (\<exists>ps. allItems p = Some ps \<and> q \<in> set ps)}"

definition reachesTarget :: "string list \<Rightarrow> string \<Rightarrow> (string \<rightharpoonup> string list) \<Rightarrow> bool" where
  "reachesTarget fileParents target allItems =
     (target = ''root'' \<or> (\<exists>p \<in> set fileParents. (p, target) \<in> (parentEdges allItems)\<^sup>*))"

text \<open>
  The walk looks at the first parent of a list before the others and, when the parent map
  knows it, at that parent's own list first. \<open>endlessWalk allItems target S\<close>: \<open>S\<close> is a set
  of parent lists, each of which starts with an id that is not the target, not \<open>root\<close> and
  not the empty id, and whose own parent list is in \<open>S\<close> again; so following first parents
  from a list in \<open>S\<close> never ends. On the cycle of \<open>A\<close> and \<open>B\<close> the lists \<open>[A]\<close> and \<open>[B]\<close>
  form such a set.
\<close>

definition endlessWalk :: "(string \<rightharpoonup> string list) \<Rightarrow> string \<Rightarrow> string list set \<Rightarrow> bool" where
  "endlessWalk allItems target S =
     (\<forall>ps \<in> S. \<exists>p rest nextParents.
        ps = p # rest \<and> p \<noteq> target \<and> p \<noteq> '''' \<and> p \<noteq> ''root''
        \<and> allItems p = Some nextParents \<and> nextParents \<in> S)"


section \<open>Example lock states and providers\<close>

text \<open>
  The file \<open>f1\<close> locked by \<open>owner\<close> until \<open>expiry\<close>, in both lock stores. The client of
  the table reports a failed condition the way the SDK prints it: the operation, the
  response with its request id (\<open>R1\<close> stands for it) and the exception.
\<close>

definition mockHeldBy :: "string \<Rightarrow> int \<Rightarrow> MockLocker" where
  "mockHeldBy owner expiry =
     \<lparr>locks = [''f1'' \<mapsto> \<lparr>FileID = ''f1'', UserID = owner, ExpiresAt = expiry\<rparr>],
      ttlDuration = DefaultTTL\<rparr>"

definition tableHeldBy :: "string \<Rightarrow> int \<Rightarrow> LockTable" where
  "tableHeldBy owner expiry =
     \<lparr>items = [''f1'' \<mapsto> \<lparr>FileID = ''f1'', UserID = owner, ExpiresAt = expiry\<rparr>],
      conditionFailedText =
        (\<lambda>operation. ''operation error DynamoDB: '' @ operation
           @ '', https response error StatusCode: 400, RequestID: R1, ''
           @ ''ConditionalCheckFailedException: The conditional request failed'')\<rparr>"

definition exampleManager :: LockManager where
  "exampleManager = NewLockManager ''locks''"

text \<open>An auth service that knows the user \<open>u1\<close> with the given base folder.\<close>

definition exampleAuth :: "string \<Rightarrow> AuthService" where
  "exampleAuth base =
     \<lparr>tokens = [''u1'' \<mapsto> \<lparr>EncryptedRefreshToken = ''sealed'', TokenBaseFolderID = base\<rparr>],
      kmsDecrypt = [''sealed'' \<mapsto> ''refresh'']\<rparr>"


section \<open>What the recursive operations are measured against\<close>

text \<open>
  An item is in scope when its parents reach the adapter's scoping target through the
  parent map built from the adapter's own items. \<open>searchMatches\<close> collects the conditions
  under which the search loop keeps an item. \<open>namesCarrySuffix\<close> says that every stored
  non-folder name ends with the reserved suffix, as every name the adapter writes does.
\<close>

definition inScope :: "MemoryAdapter \<Rightarrow> File \<Rightarrow> bool" where
  "inScope m f = reachesTarget (Parents f) (scopeTarget m) (buildParentMap (files m))"

definition searchMatches ::
  "(string \<Rightarrow> string) \<Rightarrow> MemoryAdapter \<Rightarrow> string \<Rightarrow> File \<Rightarrow> bool" where
  "searchMatches unicodeLower m query f =
     (MIMEType f \<noteq> folderMIME \<and> hasSuffix (Name f) mdExt
      \<and> (containsIgnoreCase unicodeLower (Name f) query
           \<or> containsIgnoreCase unicodeLower (Content f) query)
      \<and> inScope m f)"

definition namesCarrySuffix :: "MemoryAdapter \<Rightarrow> bool" where
  "namesCarrySuffix m =
     (\<forall>(k, f) \<in> set (files m). MIMEType f \<noteq> folderMIME \<longrightarrow> hasSuffix (Name f) mdExt)"

text \<open>
  For deletion: \<open>(c, p) \<in> childEdges fs\<close> when the item stored under the id \<open>c\<close> names \<open>p\<close>
  among its parents; the subtree of \<open>fileID\<close> is \<open>fileID\<close> together with every id whose
  parent chain reaches it; \<open>withoutIds D fs\<close> is the store without the ids in \<open>D\<close>. A set
  of ids is closed under a relation when it contains every child of its members.
  \<open>deleted m fileID res\<close> is what a returning call of \<open>deleteFileMap\<close> has done.
\<close>

definition childEdges :: "(string \<times> File) list \<Rightarrow> (string \<times> string) set" where
  "childEdges fs = {(c, p). \<exists>f. (c, f) \<in> set fs \<and> p \<in> set (Parents f)}"

definition subtree :: "(string \<times> File) list \<Rightarrow> string \<Rightarrow> string set" where
  "subtree fs fileID = {c. (c, fileID) \<in> (childEdges fs)\<^sup>*}"

definition withoutIds :: "string set \<Rightarrow> (string \<times> File) list \<Rightarrow> (string \<times> File) list" where
  "withoutIds D fs = filter (\<lambda>(k, f). k \<notin> D) fs"

definition closedUnder :: "(string \<times> string) set \<Rightarrow> string set \<Rightarrow> bool" where
  "closedUnder R D = (\<forall>c p. (c, p) \<in> R \<and> p \<in> D \<longrightarrow> c \<in> D)"

definition deleted :: "MemoryAdapter \<Rightarrow> string \<Rightarrow> (error + unit) \<times> MemoryAdapter \<Rightarrow> bool" where
  "deleted m fileID res =
     (case map_of (files m) fileID of
        None \<Rightarrow> res = (Inl ErrNotFound, m)
      | Some f \<Rightarrow> res = (Inr (), m\<lparr>files := withoutIds (subtree (files m) fileID) (files m)\<rparr>))"

text \<open>
  A malformed store: the folders \<open>A\<close> and \<open>B\<close> are each other's parent, a note lies in
  \<open>A\<close>, and the base folder \<open>T\<close> is not among the items. \<open>exampleRank\<close> is the depth of
  the items of \<open>exampleTree\<close>.
\<close>

definition exampleCycle :: MemoryAdapter where
  "exampleCycle =
     \<lparr>userID = ''u1'',
      files = [exampleItem ''A'' ''FolderA'' folderMIME [''B''] False '''',
               exampleItem ''B'' ''FolderB'' folderMIME [''A''] False '''',
               exampleItem ''N'' ''Note.md'' ''text/markdown'' [''A''] False ''hello''],
      BaseFolderID = ''T''\<rparr>"


definition exampleRank :: "string \<Rightarrow> nat" where
  "exampleRank i = (if i = ''N'' then 3 else if i = ''C'' then 2 else if i = ''P'' then 1
                    else if i = ''X'' then 1 else 0)"


section \<open>Basic facts\<close>

lemmas string_defs = hasSuffix_def trimSuffix_def toMemoryName_def fromMemoryName_def mdExt_def
  containsIgnoreCase_def toLower_def toLowerChar_def isASCII_def folderMIME_def char_of_def
  bit_Suc_0_iff

lemmas example_defs = exampleTree_def exampleItem_def exampleStore_def exampleNote_def

lemmas limit_defs = maxDemoContentSize_def maxDemoTitleLength_def maxDemoItemCount_def
  countUserItems_def

lemmas scope_defs = scopeTarget_def buildParentMap_def externalMeta_def metadataOf_def
  FileMetadata.truncate_def


lemma exampleStore_created:
  "CreateFile (NewMemoryAdapter ''u1'' '''') ''a'' ''x'' ''root'' ''n1'' 0 ''e1''
     = (Inr (metadataOf exampleNote), exampleStore)"
  by (simp add: CreateFile_def createFileMap_def NewMemoryAdapter_def exampleStore_def
      exampleNote_def maxDemoTitleLength_def maxDemoContentSize_def maxDemoItemCount_def
      countUserItems_def toMemoryName_def hasSuffix_def mdExt_def Let_def)

lemma hasSuffix_toMemoryName: "hasSuffix (toMemoryName name) mdExt"
  by (simp add: toMemoryName_def hasSuffix_def)

lemma metadataOf_simps [simp]:
  "ID (metadataOf f) = ID f" "Name (metadataOf f) = Name f"
  "MIMEType (metadataOf f) = MIMEType f" "ModifiedTime (metadataOf f) = ModifiedTime f"
  "Size (metadataOf f) = Size f" "ETag (metadataOf f) = ETag f"
  "Parents (metadataOf f) = Parents f" "Starred (metadataOf f) = Starred f"
  by (simp_all add: metadataOf_def FileMetadata.truncate_def)

lemma externalMeta_nonfolder:
  "MIMEType f \<noteq> folderMIME \<Longrightarrow>
     externalMeta f = (metadataOf f)\<lparr>Name := fromMemoryName (Name f)\<rparr>"
  by (simp add: externalMeta_def Let_def)

lemma SaveFile_table_strips:
  assumes "SaveFile_table tbl uid fileID content etag now newTag unixNow = (Inr md, tbl')"
  shows "\<exists>item'. tbl' (ID md) = Some item' \<and> Name md = fromMemoryName (Name item')"
proof -
  have "fromMemoryName (toMemoryName n) = fromMemoryName n" for n
    by (simp add: fromMemoryName_def toMemoryName_def trimSuffix_def hasSuffix_def)
  with assms show ?thesis
    by (auto simp: SaveFile_table_def GetFile_table_def Let_def
        split: if_splits option.splits)
qed

lemma MIMEType_externalMeta [simp]: "MIMEType (externalMeta f) = MIMEType f"
  by (simp add: externalMeta_def Let_def)

lemma searchLoop_subset:
  "searchLoop L query target pm fs = Some found \<Longrightarrow>
     set found \<subseteq> (\<lambda>(k, f). externalMeta f) ` set fs"
proof (induction fs arbitrary: found)
  case Nil
  then show ?case by simp
next
  case (Cons kf fs)
  obtain k f where kf: "kf = (k, f)" by (cases kf)
  from Cons.prems show ?case
    unfolding kf
    by (auto simp: Option.bind_eq_Some_conv split: if_splits dest!: Cons.IH)
qed

lemma starredLoop_subset:
  "starredLoop target pm fs = Some found \<Longrightarrow>
     set found \<subseteq> (\<lambda>(k, f). externalMeta f) ` set fs"
proof (induction fs arbitrary: found)
  case Nil
  then show ?case by simp
next
  case (Cons kf fs)
  obtain k f where kf: "kf = (k, f)" by (cases kf)
  from Cons.prems show ?case
    unfolding kf
    by (auto simp: Option.bind_eq_Some_conv split: if_splits dest!: Cons.IH)
qed

lemma externalMeta_strippedIn:
  assumes "md \<in> (\<lambda>(k, f). externalMeta f) ` set (files m)" and "MIMEType md \<noteq> folderMIME"
  shows "strippedIn m md"
proof -
  from assms(1) obtain k f where kf: "(k, f) \<in> set (files m)" and md: "md = externalMeta f"
    by auto
  from md assms(2) have "MIMEType f \<noteq> folderMIME"
    by simp
  with md have "md = (metadataOf f)\<lparr>Name := fromMemoryName (Name f)\<rparr>"
    by (simp add: externalMeta_nonfolder)
  with kf show ?thesis
    unfolding strippedIn_def by blast
qed

subsection \<open>The ancestor walk computes reachability\<close>

lemma parentEdges_step:
  "(p, t) \<in> (parentEdges m)\<^sup>* \<longleftrightarrow>
     p = t \<or> (p \<noteq> '''' \<and> p \<noteq> ''root'' \<and>
              (\<exists>ps. m p = Some ps \<and> (\<exists>q \<in> set ps. (q, t) \<in> (parentEdges m)\<^sup>*)))"
proof
  assume "(p, t) \<in> (parentEdges m)\<^sup>*"
  then show "p = t \<or> (p \<noteq> '''' \<and> p \<noteq> ''root'' \<and>
              (\<exists>ps. m p = Some ps \<and> (\<exists>q \<in> set ps. (q, t) \<in> (parentEdges m)\<^sup>*)))"
    by (cases rule: converse_rtranclE) (auto simp: parentEdges_def)
next
  assume "p = t \<or> (p \<noteq> '''' \<and> p \<noteq> ''root'' \<and>
              (\<exists>ps. m p = Some ps \<and> (\<exists>q \<in> set ps. (q, t) \<in> (parentEdges m)\<^sup>*)))"
  then show "(p, t) \<in> (parentEdges m)\<^sup>*"
  proof
    assume "p = t"
    then show ?thesis by simp
  next
    assume "p \<noteq> '''' \<and> p \<noteq> ''root'' \<and>
              (\<exists>ps. m p = Some ps \<and> (\<exists>q \<in> set ps. (q, t) \<in> (parentEdges m)\<^sup>*))"
    then obtain ps q where "p \<noteq> ''''" "p \<noteq> ''root''" "m p = Some ps" "q \<in> set ps"
      and rest: "(q, t) \<in> (parentEdges m)\<^sup>*"
      by blast
    then have "(p, q) \<in> parentEdges m"
      by (auto simp: parentEdges_def)
    from this rest show ?thesis
      by (rule converse_rtrancl_into_rtrancl)
  qed
qed

lemma reachesTarget_Nil: "reachesTarget [] t m \<longleftrightarrow> t = ''root''"
  by (simp add: reachesTarget_def)

lemma reachesTarget_Cons:
  "reachesTarget (p # rest) t m \<longleftrightarrow> (p, t) \<in> (parentEdges m)\<^sup>* \<or> reachesTarget rest t m"
  by (auto simp: reachesTarget_def)

lemma reachesTarget_root: "reachesTarget ps ''root'' m"
  by (simp add: reachesTarget_def)

lemma edge_reaches:
  assumes "t \<noteq> ''root''"
  shows "(p, t) \<in> (parentEdges m)\<^sup>* \<longleftrightarrow>
     p = t \<or> (p \<noteq> '''' \<and> p \<noteq> ''root'' \<and> (\<exists>ps. m p = Some ps \<and> reachesTarget ps t m))"
  using assms by (subst parentEdges_step) (auto simp: reachesTarget_def)

lemma isDescendant_sound:
  assumes "isDescendant fileParents target allItems = Some found"
  shows "found = reachesTarget fileParents target allItems"
proof (rule isDescendant.raw_induct
    [where P = "\<lambda>ps t m b. b = reachesTarget ps t m", OF _ assms])
  fix walk ps t m and b :: bool
  assume IH: "\<And>ps t m b. walk ps t m = Some b \<Longrightarrow> b = reachesTarget ps t m"
  assume step:
    "(if t = ''root'' then Some True
      else case ps of
        [] \<Rightarrow> Some False
      | p # rest \<Rightarrow>
          if p = t then Some True
          else if p = '''' \<or> p = ''root'' then walk rest t m
          else (case m p of
                  Some nextParents \<Rightarrow>
                    Option.bind (walk nextParents t m)
                      (\<lambda>found. if found then Some True else walk rest t m)
                | None \<Rightarrow> walk rest t m)) = Some b"
  show "b = reachesTarget ps t m"
  proof (cases "t = ''root''")
    case True
    with step show ?thesis
      by (simp add: reachesTarget_root)
  next
    case notroot: False
    show ?thesis
    proof (cases ps)
      case Nil
      with step notroot show ?thesis
        by (simp add: reachesTarget_Nil)
    next
      case (Cons p rest)
      note e = edge_reaches [OF notroot, of p m]
      show ?thesis
      proof (cases "p = t")
        case True
        with step notroot Cons show ?thesis
          by (simp add: reachesTarget_Cons)
      next
        case pt: False
        show ?thesis
        proof (cases "p = '''' \<or> p = ''root''")
          case True
          with step notroot Cons pt have "walk rest t m = Some b"
            by auto
          from IH [OF this] True pt show ?thesis
            unfolding Cons reachesTarget_Cons e by auto
        next
          case ordinary: False
          show ?thesis
          proof (cases "m p")
            case None
            with step notroot Cons pt ordinary have "walk rest t m = Some b"
              by simp
            from IH [OF this] None pt show ?thesis
              unfolding Cons reachesTarget_Cons e by auto
          next
            case (Some nextParents)
            with step notroot Cons pt ordinary obtain r where
              r: "walk nextParents t m = Some r"
              and b: "(if r then Some True else walk rest t m) = Some b"
              by (auto simp: Option.bind_eq_Some_conv)
            from IH [OF r] have r_eq: "r = reachesTarget nextParents t m" .
            show ?thesis
            proof (cases r)
              case True
              with b r_eq Some pt ordinary show ?thesis
                unfolding Cons reachesTarget_Cons e by auto
            next
              case False
              with b have "walk rest t m = Some b" by simp
              from IH [OF this] False r_eq Some pt show ?thesis
                unfolding Cons reachesTarget_Cons e by auto
            qed
          qed
        qed
      qed
    qed
  qed
qed

lemma isDescendant_root: "isDescendant ps ''root'' m = Some True"
  by (subst isDescendant.simps) simp

lemma isDescendant_walk_terminates:
  assumes "\<And>p ps. p \<in> set fileParents \<Longrightarrow> p \<noteq> '''' \<Longrightarrow> p \<noteq> ''root'' \<Longrightarrow> m p = Some ps
             \<Longrightarrow> \<exists>b. isDescendant ps t m = Some b"
  shows "\<exists>b. isDescendant fileParents t m = Some b"
  using assms
proof (induction fileParents)
  case Nil
  show ?case by (subst isDescendant.simps) auto
next
  case (Cons p rest)
  have rest: "\<exists>b. isDescendant rest t m = Some b"
    by (rule Cons.IH) (rule Cons.prems, auto)
  show ?case
  proof (cases "t = ''root'' \<or> p = t \<or> p = '''' \<or> p = ''root'' \<or> m p = None")
    case True
    with rest show ?thesis
      by (subst isDescendant.simps) auto
  next
    case False
    then obtain ps where ps: "m p = Some ps" by auto
    with False Cons.prems [of p ps] obtain r where "isDescendant ps t m = Some r"
      by auto
    with False ps rest show ?thesis
      by (subst isDescendant.simps) auto
  qed
qed

lemma isDescendant_terminates:
  assumes "wf ((parentEdges m)\<inverse>)"
  shows "\<exists>b. isDescendant fileParents t m = Some b"
proof -
  have above: "p \<noteq> '''' \<longrightarrow> p \<noteq> ''root'' \<longrightarrow>
                 (\<forall>ps. m p = Some ps \<longrightarrow> (\<exists>b. isDescendant ps t m = Some b))" for p
    using assms
  proof (induction p rule: wf_induct_rule)
    case (less p)
    show ?case
    proof (intro impI allI)
      fix ps
      assume p: "p \<noteq> ''''" "p \<noteq> ''root''" "m p = Some ps"
      show "\<exists>b. isDescendant ps t m = Some b"
      proof (rule isDescendant_walk_terminates)
        fix q qs
        assume q: "q \<in> set ps" "q \<noteq> ''''" "q \<noteq> ''root''" "m q = Some qs"
        with p have "(q, p) \<in> (parentEdges m)\<inverse>"
          by (auto simp: parentEdges_def)
        from less.IH [OF this] q show "\<exists>b. isDescendant qs t m = Some b"
          by blast
      qed
    qed
  qed
  show ?thesis
    by (rule isDescendant_walk_terminates) (use above in blast)
qed


subsection \<open>The walk of the drive adapter\<close>

lemma Drive_isDescendant_root: "Drive_isDescendant remote ps ''root'' cache = Some (True, cache)"
  by (subst Drive_isDescendant.simps) simp

lemma Drive_walk_terminates:
  assumes "\<And>p ps cache. p \<in> set fileParents \<Longrightarrow> p \<noteq> '''' \<Longrightarrow> p \<noteq> ''root''
             \<Longrightarrow> remote p = Some ps \<Longrightarrow> \<exists>r. Drive_isDescendant remote ps t cache = Some r"
  shows "\<exists>r. Drive_isDescendant remote fileParents t cache = Some r"
  using assms
proof (induction fileParents arbitrary: cache)
  case Nil
  show ?case by (subst Drive_isDescendant.simps) auto
next
  case (Cons p rest)
  have rest: "\<exists>r. Drive_isDescendant remote rest t c = Some r" for c
  proof (rule Cons.IH)
    fix q qs c'
    assume "q \<in> set rest" "q \<noteq> ''''" "q \<noteq> ''root''" "remote q = Some qs"
    then show "\<exists>r. Drive_isDescendant remote qs t c' = Some r"
      using Cons.prems [of q qs c'] by simp
  qed
  show ?case
  proof (cases "t = ''root'' \<or> p = t \<or> p = '''' \<or> p = ''root'' \<or> cache p \<noteq> None
                 \<or> remote p = None")
    case True
    with rest [of cache] rest [of "cache(p \<mapsto> False)"] show ?thesis
      by (subst Drive_isDescendant.simps) (auto split: option.splits)
  next
    case False
    then obtain ps where ps: "remote p = Some ps" by auto
    with False Cons.prems [of p ps cache] obtain found c' where
      up: "Drive_isDescendant remote ps t cache = Some (found, c')"
      by auto
    with False ps rest [of "c'(p \<mapsto> False)"] show ?thesis
      by (subst Drive_isDescendant.simps) auto
  qed
qed

lemma Drive_isDescendant_terminates:
  assumes "wf ((parentEdges remote)\<inverse>)"
  shows "\<exists>r. Drive_isDescendant remote fileParents t cache = Some r"
proof -
  have above: "p \<noteq> '''' \<longrightarrow> p \<noteq> ''root'' \<longrightarrow>
       (\<forall>ps cache. remote p = Some ps \<longrightarrow> (\<exists>r. Drive_isDescendant remote ps t cache = Some r))"
    for p
    using assms
  proof (induction p rule: wf_induct_rule)
    case (less p)
    show ?case
    proof (intro impI allI)
      fix ps cache
      assume p: "p \<noteq> ''''" "p \<noteq> ''root''" "remote p = Some ps"
      show "\<exists>r. Drive_isDescendant remote ps t cache = Some r"
      proof (rule Drive_walk_terminates)
        fix q qs c
        assume q: "q \<in> set ps" "q \<noteq> ''''" "q \<noteq> ''root''" "remote q = Some qs"
        with p have "(q, p) \<in> (parentEdges remote)\<inverse>"
          by (auto simp: parentEdges_def)
        from less.IH [OF this] q show "\<exists>r. Drive_isDescendant remote qs t c = Some r"
          by blast
      qed
    qed
  qed
  show ?thesis
    by (rule Drive_walk_terminates) (use above in blast)
qed

lemma Drive_isDescendant_diverges:
  assumes closed: "\<And>ps. ps \<in> S \<Longrightarrow>
      \<exists>p rest next. ps = p # rest \<and> p \<noteq> t \<and> p \<noteq> '''' \<and> p \<noteq> ''root'' \<and> cache p = None
        \<and> remote p = Some next \<and> next \<in> S"
    and target: "t \<noteq> ''root''"
    and start: "fileParents \<in> S"
  shows "Drive_isDescendant remote fileParents t cache = None"
proof (cases "Drive_isDescendant remote fileParents t cache")
  case None
  then show ?thesis .
next
  case (Some res)
  have "\<not> (r' = remote \<and> t' = t \<and> c' = cache \<and> ps \<in> S)"
    if "Drive_isDescendant r' ps t' c' = Some b" for r' ps t' c' b
  proof (rule Drive_isDescendant.raw_induct
      [where P = "\<lambda>r' ps t' c' b. \<not> (r' = remote \<and> t' = t \<and> c' = cache \<and> ps \<in> S)", OF _ that])
    fix walk r' ps t' c' and b :: "bool \<times> (string \<rightharpoonup> bool)"
    assume IH: "\<And>r' ps t' c' b. walk r' ps t' c' = Some (b :: bool \<times> (string \<rightharpoonup> bool))
                  \<Longrightarrow> \<not> (r' = remote \<and> t' = t \<and> c' = cache \<and> ps \<in> S)"
    assume step:
      "(if t' = ''root'' then Some (True, c')
        else case ps of
          [] \<Rightarrow> Some (False, c')
        | p # rest \<Rightarrow>
            if p = t' then Some (True, c')
            else if p = '''' \<or> p = ''root''
            then walk r' rest t' c'
            else (case c' p of
                    Some val \<Rightarrow>
                      if val then Some (True, c')
                      else walk r' rest t' c'
                  | None \<Rightarrow>
                      (case r' p of
                         None \<Rightarrow> walk r' rest t' (c'(p \<mapsto> False))
                       | Some parents \<Rightarrow>
                           Option.bind (walk r' parents t' c')
                             (\<lambda>(found, cache').
                                if found then Some (True, cache'(p \<mapsto> True))
                                else walk r' rest t' (cache'(p \<mapsto> False)))))) = Some b"
    show "\<not> (r' = remote \<and> t' = t \<and> c' = cache \<and> ps \<in> S)"
    proof
      assume a: "r' = remote \<and> t' = t \<and> c' = cache \<and> ps \<in> S"
      with closed obtain p rest "next" where
        ps: "ps = p # rest" "p \<noteq> t" "p \<noteq> ''''" "p \<noteq> ''root''" "cache p = None"
          "remote p = Some next" "next \<in> S"
        by blast
      with a step target obtain r where "walk remote next t cache = Some r"
        by (auto simp: Option.bind_eq_Some_conv)
      with IH ps show False
        by blast
    qed
  qed
  from this [OF Some] start show ?thesis
    by simp
qed


subsection \<open>Substrings and suffixes\<close>




lemma isASCII_append [simp]: "isASCII (a @ b) \<longleftrightarrow> isASCII a \<and> isASCII b"
  by (simp add: isASCII_def)



subsection \<open>The search loop\<close>

lemma searchLoop_result:
  assumes "searchLoop L query target pm fs = Some found"
  shows "found = map (\<lambda>(k, f). externalMeta f)
           (filter (\<lambda>(k, f). MIMEType f \<noteq> folderMIME \<and> hasSuffix (Name f) mdExt
                      \<and> (containsIgnoreCase L (Name f) query
                           \<or> containsIgnoreCase L (Content f) query)
                      \<and> reachesTarget (Parents f) target pm) fs)"
  using assms
proof (induction fs arbitrary: found)
  case Nil
  then show ?case by simp
next
  case (Cons kf fs)
  obtain k f where kf: "kf = (k, f)" by (cases kf)
  show ?case
  proof (cases "MIMEType f = folderMIME \<or> \<not> hasSuffix (Name f) mdExt")
    case True
    with Cons.prems have "searchLoop L query target pm fs = Some found"
      unfolding kf by (auto simp: mdExt_def split: if_splits)
    from Cons.IH [OF this] True show ?thesis
      unfolding kf by auto
  next
    case False
    with Cons.prems obtain d where d: "isDescendant (Parents f) target pm = Some d"
      and rest: "(if \<not> d then searchLoop L query target pm fs
                  else if containsIgnoreCase L (Name f) query
                          \<or> containsIgnoreCase L (Content f) query
                  then Option.bind (searchLoop L query target pm fs)
                         (\<lambda>found. Some (externalMeta f # found))
                  else searchLoop L query target pm fs) = Some found"
      unfolding kf by (auto simp: mdExt_def Option.bind_eq_Some_conv)
    from isDescendant_sound [OF d] have d_eq: "d = reachesTarget (Parents f) target pm" .
    show ?thesis
    proof (cases "d \<and> (containsIgnoreCase L (Name f) query
                        \<or> containsIgnoreCase L (Content f) query)")
      case True
      with rest obtain found' where f': "searchLoop L query target pm fs = Some found'"
        and found: "found = externalMeta f # found'"
        by (auto simp: Option.bind_eq_Some_conv)
      from Cons.IH [OF f'] found True False d_eq show ?thesis
        unfolding kf by auto
    next
      case no: False
      with rest have "searchLoop L query target pm fs = Some found"
        by (auto split: if_splits)
      from Cons.IH [OF this] no False d_eq show ?thesis
        unfolding kf by auto
    qed
  qed
qed

lemma searchLoop_total:
  assumes "\<And>k f. (k, f) \<in> set fs \<Longrightarrow> \<exists>d. isDescendant (Parents f) target pm = Some d"
  shows "\<exists>found. searchLoop L query target pm fs = Some found"
  using assms
proof (induction fs)
  case Nil
  show ?case by simp
next
  case (Cons kf fs)
  obtain k f where kf: "kf = (k, f)" by (cases kf)
  have "\<exists>found. searchLoop L query target pm fs = Some found"
  proof (rule Cons.IH)
    fix k' f'
    assume "(k', f') \<in> set fs"
    then show "\<exists>d. isDescendant (Parents f') target pm = Some d"
      using Cons.prems [of k' f'] by simp
  qed
  moreover have "\<exists>d. isDescendant (Parents f) target pm = Some d"
    by (rule Cons.prems [of k f]) (simp add: kf)
  ultimately show ?case
    unfolding kf by auto
qed

lemma finite_dom_buildParentMap_aux:
  "finite (dom pm) \<Longrightarrow>
     finite (dom (fold (\<lambda>(k, f) parentMap. parentMap(ID f \<mapsto> Parents f)) fs pm))"
  by (induction fs arbitrary: pm) (auto split: prod.splits)

lemma finite_dom_buildParentMap: "finite (dom (buildParentMap fs))"
  unfolding buildParentMap_def by (rule finite_dom_buildParentMap_aux) simp

lemma finite_parentEdges:
  assumes "finite (dom m)"
  shows "finite (parentEdges m)"
proof -
  have "parentEdges m \<subseteq> (\<Union>p \<in> dom m. (\<lambda>q. (p, q)) ` set (the (m p)))"
    by (auto simp: parentEdges_def)
  moreover have "finite (\<Union>p \<in> dom m. (\<lambda>q. (p, q)) ` set (the (m p)))"
    using assms by simp
  ultimately show ?thesis
    by (rule finite_subset)
qed

lemma acyclic_parentEdges_wf:
  assumes "finite (dom m)" and "acyclic (parentEdges m)"
  shows "wf ((parentEdges m)\<inverse>)"
  using assms
  by (simp add: finite_parentEdges finite_acyclic_wf_converse)

lemma isDescendant_diverges:
  assumes closed: "\<And>ps. ps \<in> S \<Longrightarrow>
      \<exists>p rest next. ps = p # rest \<and> p \<noteq> t \<and> p \<noteq> '''' \<and> p \<noteq> ''root''
        \<and> m p = Some next \<and> next \<in> S"
    and target: "t \<noteq> ''root''"
    and start: "fileParents \<in> S"
  shows "isDescendant fileParents t m = None"
proof (cases "isDescendant fileParents t m")
  case None
  then show ?thesis .
next
  case (Some res)
  have "\<not> (t' = t \<and> m' = m \<and> ps \<in> S)" if "isDescendant ps t' m' = Some b" for ps t' m' b
  proof (rule isDescendant.raw_induct
      [where P = "\<lambda>ps t' m' b. \<not> (t' = t \<and> m' = m \<and> ps \<in> S)", OF _ that])
    fix walk ps t' m' and b :: bool
    assume IH: "\<And>ps t' m' b. walk ps t' m' = Some (b :: bool)
                  \<Longrightarrow> \<not> (t' = t \<and> m' = m \<and> ps \<in> S)"
    assume step:
      "(if t' = ''root'' then Some True
        else case ps of
          [] \<Rightarrow> Some False
        | p # rest \<Rightarrow>
            if p = t' then Some True
            else if p = '''' \<or> p = ''root'' then walk rest t' m'
            else (case m' p of
                    Some nextParents \<Rightarrow>
                      Option.bind (walk nextParents t' m')
                        (\<lambda>found. if found then Some True else walk rest t' m')
                  | None \<Rightarrow> walk rest t' m')) = Some b"
    show "\<not> (t' = t \<and> m' = m \<and> ps \<in> S)"
    proof
      assume a: "t' = t \<and> m' = m \<and> ps \<in> S"
      with closed obtain p rest "next" where
        ps: "ps = p # rest" "p \<noteq> t" "p \<noteq> ''''" "p \<noteq> ''root''" "m p = Some next" "next \<in> S"
        by blast
      with a step target obtain r where "walk next t m = Some r"
        by (auto simp: Option.bind_eq_Some_conv)
      with IH ps show False
        by blast
    qed
  qed
  from this [OF Some] start show ?thesis
    by simp
qed

lemma SearchFiles_returns:
  assumes "SearchFiles L m query = Some res"
  shows "res = Inr (map (\<lambda>(k, f). externalMeta f)
                     (filter (\<lambda>(k, f). searchMatches L m query f) (files m)))"
proof -
  from assms obtain found where
    "searchLoop L query (scopeTarget m) (buildParentMap (files m)) (files m) = Some found"
    and res: "res = Inr found"
    by (auto simp: SearchFiles_def searchFilesMap_def)
  from searchLoop_result [OF this(1)] res show ?thesis
    by (simp add: searchMatches_def inScope_def)
qed

lemma SearchFiles_total:
  assumes "wf ((parentEdges (buildParentMap (files m)))\<inverse>) \<or> BaseFolderID m = ''''"
  shows "\<exists>res. SearchFiles L m query = Some res"
proof -
  from assms have "wf ((parentEdges (buildParentMap (files m)))\<inverse>) \<or> scopeTarget m = ''root''"
    by (auto simp: scopeTarget_def)
  then have "\<exists>d. isDescendant ps (scopeTarget m) (buildParentMap (files m)) = Some d" for ps
    by (auto simp: isDescendant_root intro: isDescendant_terminates)
  then have "\<exists>found. searchLoop L query (scopeTarget m) (buildParentMap (files m)) (files m)
               = Some found"
    by (intro searchLoop_total)
  then show ?thesis
    by (auto simp: SearchFiles_def searchFilesMap_def)
qed

lemma exampleTree_wf: "wf ((parentEdges (buildParentMap (files (exampleTree base))))\<inverse>)"
proof (rule wf_subset [OF wf_measure [of exampleRank]])
  show "(parentEdges (buildParentMap (files (exampleTree base))))\<inverse> \<subseteq> measure exampleRank"
    by (auto simp: parentEdges_def buildParentMap_def example_defs exampleRank_def
        split: if_splits)
qed

subsection \<open>Recursive delete removes the subtree\<close>

lemma withoutIds_empty [simp]: "withoutIds {} fs = fs"
  by (simp add: withoutIds_def)

lemma withoutIds_withoutIds: "withoutIds A (withoutIds B fs) = withoutIds (B \<union> A) fs"
  by (auto simp: withoutIds_def intro: filter_cong)

lemma delete_withoutIds: "AList.delete k (withoutIds D fs) = withoutIds (insert k D) fs"
  by (auto simp: withoutIds_def AList.delete_eq intro: filter_cong)

lemma map_of_withoutIds:
  "map_of (withoutIds D fs) k = (if k \<in> D then None else map_of fs k)"
  by (induction fs) (auto simp: withoutIds_def)

lemma childEdges_withoutIds:
  "childEdges (withoutIds D fs) = {(c, p). (c, p) \<in> childEdges fs \<and> c \<notin> D}"
  by (auto simp: childEdges_def withoutIds_def)

lemma set_childrenOf: "set (childrenOf fs fileID) = {c. (c, fileID) \<in> childEdges fs}"
  by (force simp: childrenOf_def childEdges_def)

lemma childEdges_key: "(c, p) \<in> childEdges fs \<Longrightarrow> map_of fs c \<noteq> None"
  by (auto simp: childEdges_def map_of_eq_None_iff intro: rev_image_eqI)

lemma closedUnder_rtrancl:
  assumes "closedUnder R D" and "(k, c) \<in> R\<^sup>*" and "c \<in> D"
  shows "k \<in> D"
  using assms(2,3)
proof (induction rule: converse_rtrancl_induct)
  case base
  then show ?case .
next
  case (step y z)
  with assms(1) show ?case
    unfolding closedUnder_def by blast
qed

lemma closedUnder_subtree:
  assumes "closedUnder (childEdges fs) D"
  shows "closedUnder (childEdges fs) (D \<union> subtree fs c)"
  using assms unfolding closedUnder_def subtree_def
  by (auto intro: converse_rtrancl_into_rtrancl)

lemma restricted_chain:
  assumes closed: "closedUnder (childEdges fs) D" and out: "k \<notin> D"
  shows "(k, c) \<in> (childEdges (withoutIds D fs))\<^sup>* \<longleftrightarrow> (k, c) \<in> (childEdges fs)\<^sup>*"
proof
  assume "(k, c) \<in> (childEdges (withoutIds D fs))\<^sup>*"
  moreover have "childEdges (withoutIds D fs) \<subseteq> childEdges fs"
    by (auto simp: childEdges_withoutIds)
  ultimately show "(k, c) \<in> (childEdges fs)\<^sup>*"
    using rtrancl_mono by blast
next
  assume "(k, c) \<in> (childEdges fs)\<^sup>*"
  then show "(k, c) \<in> (childEdges (withoutIds D fs))\<^sup>*"
    using out
  proof (induction rule: converse_rtrancl_induct)
    case base
    show ?case by simp
  next
    case (step y z)
    from closed step.hyps(1) step.prems have "z \<notin> D"
      unfolding closedUnder_def by blast
    from step.IH [OF this] have "(z, c) \<in> (childEdges (withoutIds D fs))\<^sup>*" .
    moreover from step.hyps(1) step.prems have "(y, z) \<in> childEdges (withoutIds D fs)"
      by (simp add: childEdges_withoutIds)
    ultimately show ?case
      by (rule converse_rtrancl_into_rtrancl [rotated])
  qed
qed

lemma withoutIds_subtree_restricted:
  assumes "closedUnder (childEdges fs) D"
  shows "withoutIds (subtree (withoutIds D fs) c) (withoutIds D fs)
           = withoutIds (D \<union> subtree fs c) fs"
proof -
  have "k \<notin> D \<Longrightarrow> (k \<in> subtree (withoutIds D fs) c \<longleftrightarrow> k \<in> subtree fs c)" for k
    unfolding subtree_def using restricted_chain [OF assms] by simp
  then show ?thesis
    unfolding withoutIds_withoutIds
    by (auto simp: withoutIds_def intro!: filter_cong)
qed

lemma subtree_unfold:
  "subtree fs fileID = insert fileID (\<Union>c \<in> set (childrenOf fs fileID). subtree fs c)"
proof (intro set_eqI iffI)
  fix k
  assume "k \<in> subtree fs fileID"
  then have "(k, fileID) \<in> (childEdges fs)\<^sup>*"
    by (simp add: subtree_def)
  then show "k \<in> insert fileID (\<Union>c \<in> set (childrenOf fs fileID). subtree fs c)"
    by (cases rule: rtranclE) (auto simp: set_childrenOf subtree_def)
next
  fix k
  assume "k \<in> insert fileID (\<Union>c \<in> set (childrenOf fs fileID). subtree fs c)"
  then show "k \<in> subtree fs fileID"
    by (auto simp: set_childrenOf subtree_def intro: rtrancl_into_rtrancl)
qed

lemma deleted_files:
  assumes "deleted ma c res" and "files ma = withoutIds D fs"
    and closed: "closedUnder (childEdges fs) D" and key: "map_of fs c \<noteq> None"
  shows "snd res = ma\<lparr>files := withoutIds (D \<union> subtree fs c) fs\<rparr>"
proof (cases "c \<in> D")
  case True
  then have "subtree fs c \<subseteq> D"
    using closedUnder_rtrancl [OF closed] by (auto simp: subtree_def)
  then have "D \<union> subtree fs c = D" by blast
  moreover from True assms(1,2) have "snd res = ma"
    by (simp add: deleted_def map_of_withoutIds)
  ultimately show ?thesis
    using assms(2) by simp
next
  case False
  with key assms(2) obtain f where "map_of (files ma) c = Some f"
    by (auto simp: map_of_withoutIds)
  with assms(1) have "snd res = ma\<lparr>files := withoutIds (subtree (files ma) c) (files ma)\<rparr>"
    by (simp add: deleted_def)
  then show ?thesis
    unfolding assms(2) withoutIds_subtree_restricted [OF closed] .
qed

lemma forEach_delete:
  assumes body: "\<And>c ma mb. del c ma = Some mb \<Longrightarrow> \<exists>res. deleted ma c res \<and> mb = snd res"
    and "forEachOpt del cs ma = Some mb"
    and "files ma = withoutIds D fs"
    and "closedUnder (childEdges fs) D"
    and "\<And>c. c \<in> set cs \<Longrightarrow> map_of fs c \<noteq> None"
  shows "mb = ma\<lparr>files := withoutIds (D \<union> (\<Union>c \<in> set cs. subtree fs c)) fs\<rparr>"
  using assms(2-)
proof (induction cs arbitrary: ma D)
  case Nil
  then show ?case by simp
next
  case (Cons c cs)
  from Cons.prems(1) obtain mc where mc: "del c ma = Some mc"
    and rest: "forEachOpt del cs mc = Some mb"
    by (auto simp: Option.bind_eq_Some_conv)
  from body [OF mc] obtain res where res: "deleted ma c res" "mc = snd res"
    by blast
  have key: "map_of fs c \<noteq> None"
    by (rule Cons.prems(4)) simp
  from deleted_files [OF res(1) Cons.prems(2) Cons.prems(3) key] res(2)
  have mc_eq: "mc = ma\<lparr>files := withoutIds (D \<union> subtree fs c) fs\<rparr>"
    by simp
  then have files_mc: "files mc = withoutIds (D \<union> subtree fs c) fs"
    by simp
  have "mb = mc\<lparr>files := withoutIds ((D \<union> subtree fs c) \<union> (\<Union>c \<in> set cs. subtree fs c)) fs\<rparr>"
    by (rule Cons.IH [OF rest files_mc closedUnder_subtree [OF Cons.prems(3)]])
      (rule Cons.prems(4), simp)
  with mc_eq show ?case
    by (simp add: Un_assoc)
qed

lemma deleteFileMap_deleted:
  assumes "deleteFileMap m fileID = Some res"
  shows "deleted m fileID res"
proof (rule deleteFileMap.raw_induct [where P = deleted, OF _ assms])
  fix del m fileID and res :: "(error + unit) \<times> MemoryAdapter"
  assume IH: "\<And>m fileID res. del m fileID = Some res \<Longrightarrow> deleted m fileID res"
  assume step:
    "(case map_of (files m) fileID of
        None \<Rightarrow> Some (Inl ErrNotFound, m)
      | Some f \<Rightarrow>
          Option.bind
            (forEachOpt
               (\<lambda>childID m'. Option.bind (del m' childID) (\<lambda>r. Some (snd r)))
               (childrenOf (files m) fileID) m)
            (\<lambda>m'. Some (Inr (), m'\<lparr>files := AList.delete fileID (files m')\<rparr>))) = Some res"
  show "deleted m fileID res"
  proof (cases "map_of (files m) fileID")
    case None
    with step show ?thesis
      by (simp add: deleted_def)
  next
    case (Some f)
    let ?body = "\<lambda>childID m'. Option.bind (del m' childID) (\<lambda>r. Some (snd r))"
    from step Some obtain m1 where
      loop: "forEachOpt ?body (childrenOf (files m) fileID) m = Some m1"
      and res: "res = (Inr (), m1\<lparr>files := AList.delete fileID (files m1)\<rparr>)"
      by (auto simp: Option.bind_eq_Some_conv)
    have body: "\<exists>res. deleted ma c res \<and> mb = snd res" if "?body c ma = Some mb" for c ma mb
      using that by (fastforce simp: Option.bind_eq_Some_conv dest: IH)
    have "m1 = m\<lparr>files := withoutIds ({} \<union> (\<Union>c \<in> set (childrenOf (files m) fileID).
                  subtree (files m) c)) (files m)\<rparr>"
    proof (rule forEach_delete [where del = ?body, OF body loop])
      show "files m = withoutIds {} (files m)" by simp
      show "closedUnder (childEdges (files m)) {}" by (simp add: closedUnder_def)
      show "map_of (files m) c \<noteq> None" if "c \<in> set (childrenOf (files m) fileID)" for c
        using that by (auto simp: set_childrenOf dest: childEdges_key)
    qed
    with res have "res = (Inr (), m\<lparr>files := withoutIds (subtree (files m) fileID) (files m)\<rparr>)"
      by (simp add: delete_withoutIds subtree_unfold [of "files m" fileID])
    with Some show ?thesis
      by (simp add: deleted_def)
  qed
qed

lemma forEach_delete_total:
  assumes "\<And>c (ma :: MemoryAdapter). c \<in> set cs \<Longrightarrow> childEdges (files ma) \<subseteq> R
             \<Longrightarrow> \<exists>res. deleteFileMap ma c = Some res"
    and "childEdges (files (ma :: MemoryAdapter)) \<subseteq> R"
  shows "\<exists>mb. forEachOpt (\<lambda>childID m'. Option.bind (deleteFileMap m' childID)
                 (\<lambda>r. Some (snd r))) cs ma = Some mb"
  using assms
proof (induction cs arbitrary: ma)
  case Nil
  show ?case by simp
next
  case (Cons c cs)
  from Cons.prems(1) [of c ma] Cons.prems(2) obtain res where
    res: "deleteFileMap ma c = Some res"
    by auto
  from deleteFileMap_deleted [OF res] have "childEdges (files (snd res)) \<subseteq> childEdges (files ma)"
    by (auto simp: deleted_def childEdges_withoutIds split: option.splits)
  with Cons.prems(2) have sub: "childEdges (files (snd res)) \<subseteq> R"
    by blast
  have "\<exists>mb. forEachOpt (\<lambda>childID m'. Option.bind (deleteFileMap m' childID)
                 (\<lambda>r. Some (snd r))) cs (snd res) = Some mb"
    by (rule Cons.IH [OF _ sub]) (rule Cons.prems(1), auto)
  with res show ?case
    by simp
qed

lemma deleteFileMap_terminates:
  assumes "wf (childEdges (files m))"
  shows "\<exists>res. deleteFileMap m fileID = Some res"
proof -
  define R where "R = childEdges (files m)"
  have "\<forall>ma :: MemoryAdapter.
          childEdges (files ma) \<subseteq> R \<longrightarrow> (\<exists>res. deleteFileMap ma fileID = Some res)"
    using assms [folded R_def]
  proof (induction fileID rule: wf_induct_rule)
    case (less fileID)
    show ?case
    proof (intro allI impI)
      fix ma :: MemoryAdapter
      assume sub: "childEdges (files ma) \<subseteq> R"
      have "\<exists>mb. forEachOpt (\<lambda>childID m'. Option.bind (deleteFileMap m' childID)
                 (\<lambda>r. Some (snd r))) (childrenOf (files ma) fileID) ma = Some mb"
      proof (rule forEach_delete_total [OF _ sub])
        fix c and mc :: MemoryAdapter
        assume "c \<in> set (childrenOf (files ma) fileID)" "childEdges (files mc) \<subseteq> R"
        with sub less.IH [of c] show "\<exists>res. deleteFileMap mc c = Some res"
          by (auto simp: set_childrenOf)
      qed
      then show "\<exists>res. deleteFileMap ma fileID = Some res"
        by (subst deleteFileMap.simps) (auto split: option.splits)
    qed
  qed
  then show ?thesis
    by (simp add: R_def)
qed

lemma DeleteFile_terminates:
  assumes "wf (childEdges (files m))"
  shows "\<exists>res. DeleteFile m fileID = Some res"
  unfolding DeleteFile_def using assms by (rule deleteFileMap_terminates)


subsection \<open>The suffix invariant\<close>

lemma namesCarrySuffix_New: "namesCarrySuffix (NewMemoryAdapter uid base)"
  by (simp add: namesCarrySuffix_def NewMemoryAdapter_def)

lemma set_update_cases:
  "(k', v') \<in> set (AList.update k v al) \<Longrightarrow> (k', v') = (k, v) \<or> (k', v') \<in> set al"
  by (induction al) (auto split: if_splits)

lemma namesCarrySuffix_update:
  assumes "namesCarrySuffix m" and "MIMEType f \<noteq> folderMIME \<longrightarrow> hasSuffix (Name f) mdExt"
  shows "namesCarrySuffix (m\<lparr>files := AList.update k f (files m)\<rparr>)"
  using assms unfolding namesCarrySuffix_def
  by (auto dest!: set_update_cases)

lemma namesCarrySuffix_stored:
  assumes "namesCarrySuffix m" and "map_of (files m) k = Some f" and "MIMEType f \<noteq> folderMIME"
  shows "hasSuffix (Name f) mdExt"
  using assms unfolding namesCarrySuffix_def
  by (auto dest!: map_of_SomeD)

lemma namesCarrySuffix_preserved:
  assumes "namesCarrySuffix m"
  shows "namesCarrySuffix (snd (CreateFile m name content folderID newID now newTag))"
    and "namesCarrySuffix (snd (CreateFolder m name parents newID now newTag))"
    and "namesCarrySuffix (snd (SaveFile m fileID content etag now newTag))"
    and "namesCarrySuffix (snd (RenameFile m fileID newName now newTag))"
    and "namesCarrySuffix (snd (SetStarred m fileID starred now newTag))"
    and "namesCarrySuffix (snd (DuplicateFile m fileID newID now newTag))"
    and "DeleteFile m fileID = Some (r, m') \<Longrightarrow> namesCarrySuffix m'"
proof -
  show "namesCarrySuffix (snd (CreateFile m name content folderID newID now newTag))"
    using assms
    by (auto simp: CreateFile_def createFileMap_def Let_def hasSuffix_toMemoryName
        intro!: namesCarrySuffix_update)
  show "namesCarrySuffix (snd (CreateFolder m name parents newID now newTag))"
    using assms
    by (auto simp: CreateFolder_def createFolderMap_def Let_def intro!: namesCarrySuffix_update)
  show "namesCarrySuffix (snd (SaveFile m fileID content etag now newTag))"
    using assms
    by (auto simp: SaveFile_def saveFileMap_def Let_def hasSuffix_toMemoryName
        split: option.splits intro!: namesCarrySuffix_update)
  show "namesCarrySuffix (snd (RenameFile m fileID newName now newTag))"
    using assms
    by (auto simp: RenameFile_def renameFileMap_def Let_def hasSuffix_toMemoryName
        split: option.splits intro!: namesCarrySuffix_update)
  show "namesCarrySuffix (snd (SetStarred m fileID starred now newTag))"
    using assms
    by (auto simp: SetStarred_def setStarredMap_def Let_def
        split: option.splits intro!: namesCarrySuffix_update dest: namesCarrySuffix_stored)
  show "namesCarrySuffix (snd (DuplicateFile m fileID newID now newTag))"
    using assms
    by (auto simp: DuplicateFile_def duplicateFileMap_def Let_def hasSuffix_toMemoryName
        split: option.splits intro!: namesCarrySuffix_update)
  show "namesCarrySuffix m'" if "DeleteFile m fileID = Some (r, m')"
  proof -
    from that have "deleted m fileID (r, m')"
      unfolding DeleteFile_def by (rule deleteFileMap_deleted)
    with assms show ?thesis
      by (auto simp: deleted_def namesCarrySuffix_def withoutIds_def split: option.splits)
  qed
qed


section \<open>The claims about the ephemeral adapter\<close>

subsection \<open>C1: SaveFile and the ETag precondition\<close>

text \<open>
  C1, as stated, for every call of \<open>SaveFile\<close>: a non-empty stale etag gives
  \<open>PreconditionFailed\<close>, and a matching or empty etag succeeds. \<open>SaveFile\<close> checks the
  size of the content first, so the claim fails on content of more than 262144 bytes:
  with the stale etag \<open>e0\<close> the error is the size error, not \<open>PreconditionFailed\<close>, and
  with the matching etag \<open>e1\<close> the call fails too; likewise on the table.
\<close>

theorem SaveFile_oversized_counterexample:
  "map_option ETag (map_of (files exampleStore) ''n1'') = Some ''e1''
   \<and> SaveFile exampleStore ''n1'' (replicate 262145 CHR ''y'') ''e0'' 5 ''e2''
       = (Inl (Errorf ''content too large (max 262144 bytes)''), exampleStore)
   \<and> fst (SaveFile exampleStore ''n1'' (replicate 262145 CHR ''y'') ''e0'' 5 ''e2'')
       \<noteq> Inl ErrPreconditionFailed
   \<and> SaveFile exampleStore ''n1'' (replicate 262145 CHR ''y'') ''e1'' 5 ''e2''
       = (Inl (Errorf ''content too large (max 262144 bytes)''), exampleStore)
   \<and> SaveFile_table [''n1'' \<mapsto> exampleRow] ''u1'' ''n1'' (replicate 262145 CHR ''y'') ''e0'' 5 ''e2'' 5
       = (Inl (Errorf ''content too large (max 262144 bytes)''), [''n1'' \<mapsto> exampleRow])"
  by (simp add: SaveFile_def SaveFile_table_def exampleStore_def exampleNote_def
      maxDemoContentSize_def)

text \<open>
  C1, amended: for every stored file and every call \<open>SaveFile(fileID, content, etag)\<close>
  whose content has at most \<open>maxDemoContentSize\<close> bytes, where the token that the call
  draws is not the stored ETag: if etag is non-empty and differs from the stored ETag,
  the call fails with \<open>PreconditionFailed\<close> and the store is unchanged; otherwise (etag
  equal to the stored ETag, or empty) the call succeeds, stores the new content under
  the drawn token, returns metadata whose ETag differs from the previous one, and
  leaves every other item as it was. This holds on the map and on the table.
\<close>

theorem SaveFile_etag_contract:
  assumes "length content \<le> maxDemoContentSize"
  shows "(\<forall>f. map_of (files m) fileID = Some f \<and> newTag \<noteq> ETag f \<longrightarrow>
           (if etag \<noteq> '''' \<and> etag \<noteq> ETag f
            then SaveFile m fileID content etag now newTag = (Inl ErrPreconditionFailed, m)
            else (\<exists>md m' f'. SaveFile m fileID content etag now newTag = (Inr md, m')
                    \<and> ETag md \<noteq> ETag f
                    \<and> map_of (files m') fileID = Some f'
                    \<and> Content f' = content \<and> ETag f' = ETag md \<and> ETag f' = newTag
                    \<and> (\<forall>k. k \<noteq> fileID \<longrightarrow> map_of (files m') k = map_of (files m) k))))
       \<and> (\<forall>item. tbl fileID = Some item \<and> newTag \<noteq> ETag item \<longrightarrow>
           (if etag \<noteq> '''' \<and> etag \<noteq> ETag item
            then SaveFile_table tbl uid fileID content etag now newTag unixNow
                   = (Inl ErrPreconditionFailed, tbl)
            else (\<exists>md tbl' item'.
                    SaveFile_table tbl uid fileID content etag now newTag unixNow = (Inr md, tbl')
                    \<and> ETag md \<noteq> ETag item
                    \<and> tbl' (ID item) = Some item'
                    \<and> Content item' = content \<and> ETag item' = ETag md \<and> ETag item' = newTag
                    \<and> (\<forall>k. k \<noteq> ID item \<longrightarrow> tbl' k = tbl k))))"
  using assms
  by (auto simp: SaveFile_def saveFileMap_def SaveFile_table_def GetFile_table_def
      update_conv' Let_def)

theorem SaveFile_etag_contract_witness:
  "SaveFile exampleStore ''n1'' ''y'' ''e0'' 5 ''e2'' = (Inl ErrPreconditionFailed, exampleStore)
   \<and> (\<exists>md m'. SaveFile exampleStore ''n1'' ''y'' ''e1'' 5 ''e2'' = (Inr md, m')
         \<and> ETag md \<noteq> ''e1'' \<and> map_option Content (map_of (files m') ''n1'') = Some ''y'')
   \<and> (\<exists>md m'. SaveFile exampleStore ''n1'' ''z'' '''' 5 ''e2'' = (Inr md, m')
         \<and> ETag md \<noteq> ''e1'' \<and> map_option Content (map_of (files m') ''n1'') = Some ''z'')
   \<and> SaveFile_table [''n1'' \<mapsto> exampleRow] ''u1'' ''n1'' ''y'' ''e0'' 5 ''e2'' 7
         = (Inl ErrPreconditionFailed, [''n1'' \<mapsto> exampleRow])
   \<and> (\<exists>md tbl'. SaveFile_table [''n1'' \<mapsto> exampleRow] ''u1'' ''n1'' ''y'' ''e1'' 5 ''e2'' 7
           = (Inr md, tbl')
         \<and> ETag md \<noteq> ''e1'' \<and> map_option Content (tbl' ''n1'') = Some ''y'')"
proof -
  have stored: "map_of (files exampleStore) ''n1'' = Some exampleNote"
    "[''n1'' \<mapsto> exampleRow] ''n1'' = Some exampleRow"
    by (simp_all add: exampleStore_def)
  have small: "length ''y'' \<le> maxDemoContentSize" "length ''z'' \<le> maxDemoContentSize"
    by (simp_all add: maxDemoContentSize_def)
  have fresh: "''e2'' \<noteq> ETag exampleNote" "''e2'' \<noteq> ETag exampleRow"
    by (simp_all add: exampleNote_def exampleRow_def)
  have e: "ETag exampleNote = ''e1''" "ETag exampleRow = ''e1''" "ID exampleRow = ''n1''"
    by (simp_all add: exampleNote_def exampleRow_def)
  note c = SaveFile_etag_contract [where m = exampleStore and fileID = "''n1''" and now = 5
      and newTag = "''e2''" and tbl = "[''n1'' \<mapsto> exampleRow]" and uid = "''u1''"
      and unixNow = 7]
  from c [OF small(1), where etag = "''e0''"] stored fresh
  have a1: "SaveFile exampleStore ''n1'' ''y'' ''e0'' 5 ''e2''
              = (Inl ErrPreconditionFailed, exampleStore)"
    and a4: "SaveFile_table [''n1'' \<mapsto> exampleRow] ''u1'' ''n1'' ''y'' ''e0'' 5 ''e2'' 7
         = (Inl ErrPreconditionFailed, [''n1'' \<mapsto> exampleRow])"
    by (auto simp: e)
  from c [OF small(1), where etag = "''e1''"] stored fresh
  have a2: "\<exists>md m'. SaveFile exampleStore ''n1'' ''y'' ''e1'' 5 ''e2'' = (Inr md, m')
         \<and> ETag md \<noteq> ''e1'' \<and> map_option Content (map_of (files m') ''n1'') = Some ''y''"
    and a5: "\<exists>md tbl'. SaveFile_table [''n1'' \<mapsto> exampleRow] ''u1'' ''n1'' ''y'' ''e1'' 5 ''e2'' 7
           = (Inr md, tbl')
         \<and> ETag md \<noteq> ''e1'' \<and> map_option Content (tbl' ''n1'') = Some ''y''"
    by (auto simp: e)
  from c [OF small(2), where etag = "''''"] stored fresh
  have a3: "\<exists>md m'. SaveFile exampleStore ''n1'' ''z'' '''' 5 ''e2'' = (Inr md, m')
         \<and> ETag md \<noteq> ''e1'' \<and> map_option Content (map_of (files m') ''n1'') = Some ''z''"
    by (auto simp: e)
  from a1 a2 a3 a4 a5 show ?thesis
    by (intro conjI)
qed

subsection \<open>C4: the ETag after a successful mutation\<close>




subsection \<open>C6: the reserved suffix in external responses\<close>

text \<open>
  C6, as stated, for \<open>RenameFile\<close>: the name in the returned metadata has the suffix
  stripped. Renaming the note of \<open>exampleStore\<close> to \<open>b\<close> returns the name \<open>b.md\<close>: the
  stored name, suffix included.
\<close>

theorem RenameFile_name_counterexample:
  "(case fst (RenameFile exampleStore ''n1'' ''b'' 5 ''e2'') of
      Inl err \<Rightarrow> False
    | Inr md \<Rightarrow> MIMEType md \<noteq> folderMIME \<and> Name md = ''b.md'' \<and> hasSuffix (Name md) mdExt
                 \<and> Name md \<noteq> fromMemoryName ''b.md'')"
  by (simp add: RenameFile_def renameFileMap_def exampleStore_def exampleNote_def Let_def
      maxDemoTitleLength_def string_defs)

text \<open>
  C6, amended: for every non-folder item, the metadata returned by \<open>GetFile\<close>,
  \<open>ListFiles\<close>, \<open>ListStarred\<close>, \<open>SearchFiles\<close> and \<open>DuplicateFile\<close> carries the stored
  name with the reserved suffix stripped by \<open>fromMemoryName\<close>; \<open>RenameFile\<close> returns the
  name as stored, which ends with the suffix.
\<close>

theorem external_names_stripped:
  "(\<forall>got. GetFile m fileID = Inr got \<longrightarrow> MIMEType got \<noteq> folderMIME \<longrightarrow>
       (\<exists>f. map_of (files m) fileID = Some f \<and> got = f\<lparr>Name := fromMemoryName (Name f)\<rparr>))
   \<and> (\<forall>listed. ListFiles m folderID = Inr listed \<longrightarrow>
         (\<forall>md \<in> set listed. MIMEType md \<noteq> folderMIME \<longrightarrow> strippedIn m md))
   \<and> (\<forall>starred. ListStarred m = Some (Inr starred) \<longrightarrow>
         (\<forall>md \<in> set starred. MIMEType md \<noteq> folderMIME \<longrightarrow> strippedIn m md))
   \<and> (\<forall>found. SearchFiles unicodeLower m query = Some (Inr found) \<longrightarrow>
         (\<forall>md \<in> set found. MIMEType md \<noteq> folderMIME \<longrightarrow> strippedIn m md))
   \<and> (\<forall>md m'. DuplicateFile m fileID newID now newTag = (Inr md, m') \<longrightarrow>
         (\<exists>f'. map_of (files m') newID = Some f' \<and> Name md = fromMemoryName (Name f')))
   \<and> (\<forall>md m'. RenameFile m fileID newName now newTag = (Inr md, m') \<longrightarrow>
         Name md = toMemoryName newName \<and> hasSuffix (Name md) mdExt)"
proof (intro conjI allI impI ballI)
  fix got
  assume "GetFile m fileID = Inr got" "MIMEType got \<noteq> folderMIME"
  then show "\<exists>f. map_of (files m) fileID = Some f \<and> got = f\<lparr>Name := fromMemoryName (Name f)\<rparr>"
    by (auto simp: GetFile_def getFileMap_def split: option.splits if_splits)
next
  fix listed md
  assume "ListFiles m folderID = Inr listed" "md \<in> set listed" "MIMEType md \<noteq> folderMIME"
  then show "strippedIn m md"
    by (intro externalMeta_strippedIn) (auto simp: ListFiles_def listFilesMap_def Let_def)
next
  fix starred md
  assume "ListStarred m = Some (Inr starred)" "md \<in> set starred" "MIMEType md \<noteq> folderMIME"
  then show "strippedIn m md"
    by (intro externalMeta_strippedIn)
      (auto simp: ListStarred_def listStarredMap_def dest: starredLoop_subset)
next
  fix found md
  assume "SearchFiles unicodeLower m query = Some (Inr found)" "md \<in> set found"
    "MIMEType md \<noteq> folderMIME"
  then show "strippedIn m md"
    by (intro externalMeta_strippedIn)
      (auto simp: SearchFiles_def searchFilesMap_def dest: searchLoop_subset)
next
  fix md m'
  assume "DuplicateFile m fileID newID now newTag = (Inr md, m')"
  then show "\<exists>f'. map_of (files m') newID = Some f' \<and> Name md = fromMemoryName (Name f')"
    by (auto simp: DuplicateFile_def duplicateFileMap_def Let_def update_conv'
        split: if_splits option.splits)
next
  fix md m'
  assume r: "RenameFile m fileID newName now newTag = (Inr md, m')"
  then show "Name md = toMemoryName newName"
    by (auto simp: RenameFile_def renameFileMap_def Let_def split: if_splits option.splits)
  with hasSuffix_toMemoryName show "hasSuffix (Name md) mdExt"
    by simp
qed

theorem external_names_stripped_witness:
  "(\<exists>got. GetFile (exampleTree ''P'') ''N'' = Inr got \<and> MIMEType got \<noteq> folderMIME
       \<and> Name got = ''Note'')
   \<and> (\<exists>md. ListFiles (exampleTree ''P'') ''C'' = Inr [md] \<and> MIMEType md \<noteq> folderMIME
       \<and> Name md = ''Note'' \<and> strippedIn (exampleTree ''P'') md)
   \<and> (\<exists>md. ListStarred (exampleTree ''P'') = Some (Inr [md]) \<and> MIMEType md \<noteq> folderMIME
       \<and> Name md = ''Note'' \<and> strippedIn (exampleTree ''P'') md)
   \<and> (\<forall>unicodeLower.
         \<exists>md. SearchFiles unicodeLower (exampleTree ''P'') ''WORLD'' = Some (Inr [md])
           \<and> MIMEType md \<noteq> folderMIME \<and> Name md = ''Note'' \<and> strippedIn (exampleTree ''P'') md)
   \<and> (\<exists>md m' f'. DuplicateFile (exampleTree ''P'') ''N'' ''D'' 5 ''t2'' = (Inr md, m')
       \<and> Name md = ''Copy of Note'' \<and> map_of (files m') ''D'' = Some f'
       \<and> Name md = fromMemoryName (Name f'))
   \<and> (\<exists>md m'. RenameFile (exampleTree ''P'') ''N'' ''b'' 5 ''t2'' = (Inr md, m')
       \<and> Name md = ''b.md'' \<and> hasSuffix (Name md) mdExt)"
proof -
  let ?m = "exampleTree ''P''"
  note claim = external_names_stripped [where m = ?m and fileID = "''N''" and folderID = "''C''"
      and query = "''WORLD''" and newID = "''D''" and now = 5 and newTag = "''t2''"
      and newName = "''b''"]
  have g: "\<exists>got. GetFile ?m ''N'' = Inr got \<and> MIMEType got \<noteq> folderMIME \<and> Name got = ''Note''"
    by (simp add: GetFile_def getFileMap_def example_defs string_defs)
  have l: "\<exists>md. ListFiles ?m ''C'' = Inr [md] \<and> MIMEType md \<noteq> folderMIME \<and> Name md = ''Note''"
    by (simp add: ListFiles_def listFilesMap_def example_defs string_defs scope_defs)
  have s: "\<exists>md. ListStarred ?m = Some (Inr [md]) \<and> MIMEType md \<noteq> folderMIME
             \<and> Name md = ''Note''"
    by (simp add: ListStarred_def listStarredMap_def example_defs string_defs scope_defs
        isDescendant.simps)
  have q: "\<exists>md. SearchFiles L ?m ''WORLD'' = Some (Inr [md]) \<and> MIMEType md \<noteq> folderMIME
             \<and> Name md = ''Note''" for L
    by (simp add: SearchFiles_def searchFilesMap_def example_defs string_defs scope_defs
        isDescendant.simps)
  have d: "\<exists>md m'. DuplicateFile ?m ''N'' ''D'' 5 ''t2'' = (Inr md, m')
             \<and> Name md = ''Copy of Note''"
    by (simp add: DuplicateFile_def duplicateFileMap_def example_defs string_defs limit_defs
        Let_def)
  have r: "\<exists>md m'. RenameFile ?m ''N'' ''b'' 5 ''t2'' = (Inr md, m') \<and> Name md = ''b.md''"
    by (simp add: RenameFile_def renameFileMap_def example_defs string_defs limit_defs Let_def)
  from g have c1: "\<exists>got. GetFile ?m ''N'' = Inr got \<and> MIMEType got \<noteq> folderMIME
       \<and> Name got = ''Note''" .
  from l claim have c2: "\<exists>md. ListFiles ?m ''C'' = Inr [md] \<and> MIMEType md \<noteq> folderMIME
       \<and> Name md = ''Note'' \<and> strippedIn ?m md"
    by fastforce
  from s claim have c3: "\<exists>md. ListStarred ?m = Some (Inr [md]) \<and> MIMEType md \<noteq> folderMIME
       \<and> Name md = ''Note'' \<and> strippedIn ?m md"
    by fastforce
  have c4: "\<forall>L. \<exists>md. SearchFiles L ?m ''WORLD'' = Some (Inr [md])
       \<and> MIMEType md \<noteq> folderMIME \<and> Name md = ''Note'' \<and> strippedIn ?m md"
  proof
    fix L
    from q [of L] claim [where unicodeLower = L]
    show "\<exists>md. SearchFiles L ?m ''WORLD'' = Some (Inr [md])
       \<and> MIMEType md \<noteq> folderMIME \<and> Name md = ''Note'' \<and> strippedIn ?m md"
      by fastforce
  qed
  from d claim have c5: "\<exists>md m' f'. DuplicateFile ?m ''N'' ''D'' 5 ''t2'' = (Inr md, m')
       \<and> Name md = ''Copy of Note'' \<and> map_of (files m') ''D'' = Some f'
       \<and> Name md = fromMemoryName (Name f')"
    by fastforce
  from r claim have c6: "\<exists>md m'. RenameFile ?m ''N'' ''b'' 5 ''t2'' = (Inr md, m')
       \<and> Name md = ''b.md'' \<and> hasSuffix (Name md) mdExt"
    by fastforce
  from c1 c2 c3 c4 c5 c6 show ?thesis
    by (intro conjI)
qed


subsection \<open>C5: deleting a folder removes its subtree\<close>



subsection \<open>C9: the ancestor walk and cycles\<close>

text \<open>
  C9, as stated: the walk terminates on every parent graph, cycles included, because of
  a visited-set guard. \<open>isDescendant\<close> has no such guard: in \<open>exampleCycle\<close>, where \<open>A\<close>
  and \<open>B\<close> are each other's parent, the walk from \<open>A\<close> towards the base folder \<open>T\<close> does
  not return, and neither does a search on that store. The walk of the drive adapter
  writes its cache only after the recursive call has returned; on the same graph it does
  not return either.
\<close>

theorem isDescendant_cycle_counterexample:
  "isDescendant [''A''] ''T'' (buildParentMap (files exampleCycle)) = None
   \<and> (\<forall>unicodeLower. SearchFiles unicodeLower exampleCycle ''hello'' = None)
   \<and> Drive_isDescendant [''A'' \<mapsto> [''B''], ''B'' \<mapsto> [''A'']] [''A''] ''T'' Map.empty = None"
proof -
  let ?pm = "buildParentMap (files exampleCycle)"
  have pm: "?pm ''A'' = Some [''B'']" "?pm ''B'' = Some [''A'']"
    by (simp_all add: buildParentMap_def exampleCycle_def exampleItem_def)
  have walk: "isDescendant [''A''] ''T'' pm = None"
    if "pm ''A'' = Some [''B'']" "pm ''B'' = Some [''A'']" for pm
    by (rule isDescendant_diverges [where S = "{[''A''], [''B'']}"]) (auto simp: that)
  have loop: "searchLoop L ''hello'' ''T'' pm (files exampleCycle) = None"
    if "pm ''A'' = Some [''B'']" "pm ''B'' = Some [''A'']" for pm L
    by (simp add: exampleCycle_def exampleItem_def string_defs walk [OF that])
  have target: "scopeTarget exampleCycle = ''T''"
    by (simp add: scopeTarget_def exampleCycle_def)
  have search: "\<forall>L. SearchFiles L exampleCycle ''hello'' = None"
    using loop [OF pm] unfolding SearchFiles_def searchFilesMap_def target by simp
  have drive: "Drive_isDescendant [''A'' \<mapsto> [''B''], ''B'' \<mapsto> [''A'']] [''A''] ''T'' Map.empty = None"
    by (rule Drive_isDescendant_diverges [where S = "{[''A''], [''B'']}"]) auto
  from walk [OF pm] search drive show ?thesis
    by (intro conjI)
qed

text \<open>
  C9, amended: the walk keeps no visited set. Both walks return on every parent map in
  which no chain of parents goes on forever (\<open>acyclic_parentEdges_wf\<close>: every finite
  parent map without a cycle is one), and on every parent map when the target is the
  literal \<open>root\<close>; the walk of the ephemeral adapter then answers whether the parents
  reach the target. When the target is not \<open>root\<close> and the walk starts on a list of an
  endless walk (following first parents never ends and never meets the target, \<open>root\<close>
  or the empty id, as on a cycle with the target outside it), the walk of the ephemeral
  adapter does not return, and neither does the walk of the drive adapter when its cache
  holds none of the first parents on the way.
\<close>

theorem isDescendant_termination:
  "(wf ((parentEdges allItems)\<inverse>) \<or> targetFolderID = ''root'' \<longrightarrow>
      (\<exists>found. isDescendant fileParents targetFolderID allItems = Some found
          \<and> found = reachesTarget fileParents targetFolderID allItems)
      \<and> (\<exists>answer. Drive_isDescendant allItems fileParents targetFolderID cache = Some answer))
   \<and> (targetFolderID \<noteq> ''root'' \<and> endlessWalk allItems targetFolderID S \<and> fileParents \<in> S \<longrightarrow>
        isDescendant fileParents targetFolderID allItems = None
        \<and> ((\<forall>ps \<in> S. cache (hd ps) = None) \<longrightarrow>
             Drive_isDescendant allItems fileParents targetFolderID cache = None))"
proof (intro conjI impI)
  assume a: "wf ((parentEdges allItems)\<inverse>) \<or> targetFolderID = ''root''"
  then have "\<exists>found. isDescendant fileParents targetFolderID allItems = Some found"
    by (auto simp: isDescendant_root intro: isDescendant_terminates)
  then show "\<exists>found. isDescendant fileParents targetFolderID allItems = Some found
            \<and> found = reachesTarget fileParents targetFolderID allItems"
    by (auto dest: isDescendant_sound)
  show "\<exists>answer. Drive_isDescendant allItems fileParents targetFolderID cache = Some answer"
  proof (cases "targetFolderID = ''root''")
    case True
    then have "Drive_isDescendant allItems fileParents targetFolderID cache = Some (True, cache)"
      by (simp add: Drive_isDescendant_root)
    then show ?thesis ..
  next
    case False
    with a have "wf ((parentEdges allItems)\<inverse>)"
      by simp
    then show ?thesis
      by (rule Drive_isDescendant_terminates)
  qed
next
  assume e: "targetFolderID \<noteq> ''root'' \<and> endlessWalk allItems targetFolderID S \<and> fileParents \<in> S"
  then have step: "\<exists>p rest next. ps = p # rest \<and> p \<noteq> targetFolderID \<and> p \<noteq> '''' \<and> p \<noteq> ''root''
        \<and> allItems p = Some next \<and> next \<in> S" if "ps \<in> S" for ps
    using that unfolding endlessWalk_def by blast
  from e show "isDescendant fileParents targetFolderID allItems = None"
    by (intro isDescendant_diverges [where S = S] step) auto
  assume c: "\<forall>ps \<in> S. cache (hd ps) = None"
  have "\<exists>p rest next. ps = p # rest \<and> p \<noteq> targetFolderID \<and> p \<noteq> '''' \<and> p \<noteq> ''root''
        \<and> cache p = None \<and> allItems p = Some next \<and> next \<in> S" if "ps \<in> S" for ps
    using step [OF that] c that by fastforce
  with e show "Drive_isDescendant allItems fileParents targetFolderID cache = None"
    by (intro Drive_isDescendant_diverges [where S = S]) auto
qed

theorem isDescendant_termination_witness:
  "wf ((parentEdges (buildParentMap (files (exampleTree ''P''))))\<inverse>)
   \<and> isDescendant [''C''] ''P'' (buildParentMap (files (exampleTree ''P''))) = Some True
   \<and> reachesTarget [''C''] ''P'' (buildParentMap (files (exampleTree ''P'')))
   \<and> isDescendant [''root''] ''P'' (buildParentMap (files (exampleTree ''P''))) = Some False
   \<and> \<not> reachesTarget [''root''] ''P'' (buildParentMap (files (exampleTree ''P'')))
   \<and> (\<exists>cache'. Drive_isDescendant (buildParentMap (files (exampleTree ''P''))) [''C''] ''P''
                    Map.empty = Some (True, cache'))
   \<and> endlessWalk (buildParentMap (files exampleCycle)) ''T'' {[''A''], [''B'']}
   \<and> isDescendant [''B''] ''T'' (buildParentMap (files exampleCycle)) = None
   \<and> Drive_isDescendant (buildParentMap (files exampleCycle)) [''B''] ''T'' Map.empty = None"
proof -
  let ?pm = "buildParentMap (files (exampleTree ''P''))"
  let ?cm = "buildParentMap (files exampleCycle)"
  have w: "wf ((parentEdges ?pm)\<inverse>) \<or> ''P'' = ''root''"
    using exampleTree_wf by blast
  have a: "isDescendant [''C''] ''P'' ?pm = Some True"
    by (simp add: isDescendant.simps buildParentMap_def example_defs)
  have b: "isDescendant [''root''] ''P'' ?pm = Some False"
    by (simp add: isDescendant.simps buildParentMap_def example_defs)
  have d: "fst (the (Drive_isDescendant ?pm [''C''] ''P'' Map.empty))"
    by (simp add: Drive_isDescendant.simps buildParentMap_def example_defs)
  have cm: "?cm ''A'' = Some [''B'']" "?cm ''B'' = Some [''A'']"
    by (simp_all add: buildParentMap_def exampleCycle_def exampleItem_def)
  then have e: "endlessWalk ?cm ''T'' {[''A''], [''B'']}"
    by (simp add: endlessWalk_def)
  have t: "''T'' \<noteq> ''root''" "[''B''] \<in> {[''A''], [''B'']}"
    "\<forall>ps \<in> {[''A''], [''B'']}. (Map.empty :: string \<rightharpoonup> bool) (hd ps) = None"
    by simp_all
  note claim = isDescendant_termination [where cache = Map.empty]
  from claim [of ?pm "''P''" "[''C'']" "{}"] w
  have "\<exists>answer. Drive_isDescendant ?pm [''C''] ''P'' Map.empty = Some answer"
    by blast
  then obtain answer where answer: "Drive_isDescendant ?pm [''C''] ''P'' Map.empty = Some answer" ..
  with d have "answer = (True, snd answer)"
    by (cases answer) simp
  with answer
  have dr: "\<exists>cache'. Drive_isDescendant ?pm [''C''] ''P'' Map.empty = Some (True, cache')"
    by metis
  from claim [of ?pm "''P''" "[''C'']" "{}"] claim [of ?pm "''P''" "[''root'']" "{}"] w a b
  have r: "reachesTarget [''C''] ''P'' ?pm" "\<not> reachesTarget [''root''] ''P'' ?pm"
    by auto
  from claim [of ?cm "''T''" "[''B'']" "{[''A''], [''B'']}"] e t
  have l: "isDescendant [''B''] ''T'' ?cm = None"
    "Drive_isDescendant ?cm [''B''] ''T'' Map.empty = None"
    by blast+
  from exampleTree_wf [of "''P''"] a r(1) b r(2) dr e l show ?thesis
    by (intro conjI)
qed

subsection \<open>C7: what SearchFiles returns\<close>

text \<open>
  C7, as stated: \<open>SearchFiles\<close> returns exactly the non-folder items in scope whose name
  or content matches the query, the name being the name of the data model, which the
  external responses show. The note of \<open>exampleStore\<close> is shown as \<open>a\<close> and holds \<open>x\<close>;
  neither contains \<open>md\<close>, and the search for \<open>md\<close> returns it.
\<close>

theorem SearchFiles_display_name_counterexample:
  "\<forall>unicodeLower.
     SearchFiles unicodeLower exampleStore ''md'' = Some (Inr [externalMeta exampleNote])
     \<and> MIMEType exampleNote \<noteq> folderMIME
     \<and> Name (externalMeta exampleNote) = ''a''
     \<and> \<not> containsIgnoreCase unicodeLower (Name (externalMeta exampleNote)) ''md''
     \<and> \<not> containsIgnoreCase unicodeLower (Content exampleNote) ''md''"
  by (simp add: SearchFiles_def searchFilesMap_def example_defs string_defs scope_defs
      isDescendant.simps)

text \<open>
  C7, amended: for every store, base-folder setting and query, a returning \<open>SearchFiles\<close>
  returns exactly, in the store's order, the items that are not folders, whose stored
  name ends with the reserved suffix, whose stored name (suffix included) or raw content
  contains the query case-insensitively (both sides lowered by \<open>strings.ToLower\<close>), and
  whose parents reach the base folder through the parent map (the literal \<open>root\<close>
  reaching everything; the walk does not continue above the ids \<open>root\<close> and the empty
  id); folders and items out of scope are never returned. The call returns whenever no
  chain of parents goes on forever, and always when no base folder is set.
\<close>

theorem SearchFiles_result:
  "(\<forall>res. SearchFiles unicodeLower m query = Some res \<longrightarrow>
       res = Inr (map (\<lambda>(k, f). externalMeta f)
                    (filter (\<lambda>(k, f). searchMatches unicodeLower m query f) (files m))))
   \<and> (wf ((parentEdges (buildParentMap (files m)))\<inverse>) \<or> BaseFolderID m = '''' \<longrightarrow>
        (\<exists>res. SearchFiles unicodeLower m query = Some res))"
  by (blast intro: SearchFiles_returns SearchFiles_total)

theorem SearchFiles_result_witness:
  "wf ((parentEdges (buildParentMap (files (exampleTree ''P''))))\<inverse>)
   \<and> (\<forall>unicodeLower.
        \<exists>md. SearchFiles unicodeLower (exampleTree ''P'') ''WORLD'' = Some (Inr [md])
          \<and> ID md = ''N''
          \<and> map (\<lambda>(k, f). externalMeta f)
              (filter (\<lambda>(k, f). searchMatches unicodeLower (exampleTree ''P'') ''WORLD'' f)
                 (files (exampleTree ''P''))) = [md])"
proof (intro conjI allI)
  show "wf ((parentEdges (buildParentMap (files (exampleTree ''P''))))\<inverse>)"
    by (rule exampleTree_wf)
next
  fix L
  let ?m = "exampleTree ''P''"
  note claim = SearchFiles_result [where m = ?m and query = "''WORLD''" and unicodeLower = L]
  have e: "\<exists>md. SearchFiles L ?m ''WORLD'' = Some (Inr [md]) \<and> ID md = ''N''"
    by (simp add: SearchFiles_def searchFilesMap_def example_defs string_defs scope_defs
        isDescendant.simps)
  from claim exampleTree_wf [of "''P''"] have "\<exists>res. SearchFiles L ?m ''WORLD'' = Some res"
    by blast
  with claim e
  show "\<exists>md. SearchFiles L ?m ''WORLD'' = Some (Inr [md]) \<and> ID md = ''N''
          \<and> map (\<lambda>(k, f). externalMeta f)
              (filter (\<lambda>(k, f). searchMatches L ?m ''WORLD'' f) (files ?m)) = [md]"
    by auto
qed

subsection \<open>C10: queries inside the reserved suffix\<close>





section \<open>The claims about session locks\<close>

lemmas lock_example_defs = mockHeldBy_def tableHeldBy_def exampleManager_def NewLockManager_def
  NewMockLocker_def DefaultTTL_def

subsection \<open>C2: AcquireLock\<close>

text \<open>
  C2, as stated: a refused \<open>AcquireLock\<close> fails with a LockConflict error that carries the
  current owner's identity and the current expiry. Neither lock store has such an error.
  \<open>MockLocker\<close> returns the error made of one fixed message: \<open>bob\<close> asking for \<open>f1\<close> gets
  the same error value whether \<open>alice\<close> holds the lock until 500 or \<open>carol\<close> holds it until
  900. \<open>LockManager\<close> returns the client's error behind its own prefix; it names the
  operation and the failed condition, and is the same for both holders as well.
\<close>

theorem AcquireLock_conflict_counterexample:
  "MockLocker_AcquireLock (mockHeldBy ''alice'' 500) ''f1'' ''bob'' 100
     = (Inl (Errorf ''file is locked by another user''), mockHeldBy ''alice'' 500)
   \<and> MockLocker_AcquireLock (mockHeldBy ''carol'' 900) ''f1'' ''bob'' 100
     = (Inl (Errorf ''file is locked by another user''), mockHeldBy ''carol'' 900)
   \<and> AcquireLock exampleManager (tableHeldBy ''alice'' 500) ''f1'' ''bob'' 100
     = (Inl (Errorf (''failed to acquire lock: operation error DynamoDB: PutItem, ''
                     @ ''https response error StatusCode: 400, RequestID: R1, ''
                     @ ''ConditionalCheckFailedException: The conditional request failed'')),
        tableHeldBy ''alice'' 500)
   \<and> AcquireLock exampleManager (tableHeldBy ''carol'' 900) ''f1'' ''bob'' 100
     = (Inl (Errorf (''failed to acquire lock: operation error DynamoDB: PutItem, ''
                     @ ''https response error StatusCode: 400, RequestID: R1, ''
                     @ ''ConditionalCheckFailedException: The conditional request failed'')),
        tableHeldBy ''carol'' 900)"
  by (simp add: MockLocker_AcquireLock_def AcquireLock_def lock_example_defs Let_def)

text \<open>
  C2, amended: for every lock state and every call \<open>AcquireLock(fileID, userID)\<close> at time
  \<open>now\<close>: the call succeeds if and only if no record exists for \<open>fileID\<close>, or the
  record's expiry has passed (\<open>ExpiresAt < now\<close> in \<open>LockManager\<close>, \<open>ExpiresAt \<le> now\<close> in
  \<open>MockLocker\<close>), or the record's owner equals \<open>userID\<close>; on success it writes and
  returns the record with owner \<open>userID\<close> and expiry \<open>now\<close> plus the time to live;
  otherwise it leaves the store unchanged and fails with an error that carries neither
  the owner nor the expiry: whichever record blocks the call, the error is the same (in
  \<open>MockLocker\<close> the error with the message \<open>file is locked by another user\<close>).
\<close>

theorem AcquireLock_contract:
  "((\<exists>s t. AcquireLock mgr tbl fileID uid now = (Inr s, t)) \<longleftrightarrow>
      (items tbl fileID = None
       \<or> (\<exists>e. items tbl fileID = Some e \<and> (ExpiresAt e < now \<or> UserID e = uid))))
   \<and> (\<forall>s t. AcquireLock mgr tbl fileID uid now = (Inr s, t) \<longrightarrow>
         s = \<lparr>FileID = fileID, UserID = uid, ExpiresAt = now + ttlSeconds mgr\<rparr>
         \<and> t = tbl\<lparr>items := (items tbl)(fileID \<mapsto> s)\<rparr>)
   \<and> (\<forall>err t. AcquireLock mgr tbl fileID uid now = (Inl err, t) \<longrightarrow>
         t = tbl
         \<and> (\<forall>other. \<not> (ExpiresAt other < now \<or> UserID other = uid) \<longrightarrow>
               AcquireLock mgr (tbl\<lparr>items := (items tbl)(fileID \<mapsto> other)\<rparr>) fileID uid now
                 = (Inl err, tbl\<lparr>items := (items tbl)(fileID \<mapsto> other)\<rparr>)))
   \<and> ((\<exists>s l'. MockLocker_AcquireLock l fileID uid now = (Inr s, l')) \<longleftrightarrow>
      (locks l fileID = None
       \<or> (\<exists>e. locks l fileID = Some e \<and> (ExpiresAt e \<le> now \<or> UserID e = uid))))
   \<and> (\<forall>s l'. MockLocker_AcquireLock l fileID uid now = (Inr s, l') \<longrightarrow>
         s = \<lparr>FileID = fileID, UserID = uid, ExpiresAt = now + ttlDuration l\<rparr>
         \<and> l' = l\<lparr>locks := (locks l)(fileID \<mapsto> s)\<rparr>)
   \<and> (\<forall>err l'. MockLocker_AcquireLock l fileID uid now = (Inl err, l') \<longrightarrow>
         l' = l \<and> err = Errorf ''file is locked by another user''
         \<and> (\<forall>other. \<not> (ExpiresAt other \<le> now \<or> UserID other = uid) \<longrightarrow>
               MockLocker_AcquireLock (l\<lparr>locks := (locks l)(fileID \<mapsto> other)\<rparr>) fileID uid now
                 = (Inl err, l\<lparr>locks := (locks l)(fileID \<mapsto> other)\<rparr>)))"
  by (auto simp: AcquireLock_def MockLocker_AcquireLock_def Let_def
      split: option.splits if_splits)

theorem AcquireLock_contract_witness:
  "(\<exists>s t. AcquireLock exampleManager (tableHeldBy ''alice'' 500) ''f1'' ''bob'' 600 = (Inr s, t)
       \<and> UserID s = ''bob'' \<and> ExpiresAt s = 900 \<and> items t ''f1'' = Some s)
   \<and> (\<exists>s t. AcquireLock exampleManager (tableHeldBy ''alice'' 500) ''f1'' ''alice'' 100 = (Inr s, t)
       \<and> UserID s = ''alice'' \<and> ExpiresAt s = 400 \<and> items t ''f1'' = Some s)
   \<and> (\<exists>s t. AcquireLock exampleManager (tableHeldBy ''alice'' 500) ''f2'' ''bob'' 100 = (Inr s, t)
       \<and> UserID s = ''bob'' \<and> ExpiresAt s = 400 \<and> items t ''f2'' = Some s)
   \<and> (\<exists>err. AcquireLock exampleManager (tableHeldBy ''alice'' 500) ''f1'' ''bob'' 100
         = (Inl err, tableHeldBy ''alice'' 500)
       \<and> AcquireLock exampleManager (tableHeldBy ''carol'' 900) ''f1'' ''bob'' 100
         = (Inl err, tableHeldBy ''carol'' 900))
   \<and> (\<exists>s l'. MockLocker_AcquireLock (mockHeldBy ''alice'' 500) ''f1'' ''bob'' 500 = (Inr s, l')
       \<and> UserID s = ''bob'' \<and> ExpiresAt s = 800 \<and> locks l' ''f1'' = Some s)
   \<and> (\<exists>err. MockLocker_AcquireLock (mockHeldBy ''alice'' 500) ''f1'' ''bob'' 100
         = (Inl err, mockHeldBy ''alice'' 500)
       \<and> MockLocker_AcquireLock (mockHeldBy ''carol'' 900) ''f1'' ''bob'' 100
         = (Inl err, mockHeldBy ''carol'' 900))"
proof -
  let ?carol = "\<lparr>FileID = ''f1'', UserID = ''carol'', ExpiresAt = 900\<rparr>"
  have i1: "items (tableHeldBy ''alice'' 500) ''f1''
             = Some \<lparr>FileID = ''f1'', UserID = ''alice'', ExpiresAt = 500\<rparr>"
    and i2: "items (tableHeldBy ''alice'' 500) ''f2'' = None"
    and i3: "locks (mockHeldBy ''alice'' 500) ''f1''
             = Some \<lparr>FileID = ''f1'', UserID = ''alice'', ExpiresAt = 500\<rparr>"
    and ttl: "ttlSeconds exampleManager = 300" "ttlDuration (mockHeldBy ''alice'' 500) = 300"
    by (simp_all add: lock_example_defs)
  have other: "(tableHeldBy ''alice'' 500)
                 \<lparr>items := (items (tableHeldBy ''alice'' 500))(''f1'' \<mapsto> ?carol)\<rparr>
               = tableHeldBy ''carol'' 900"
    "(mockHeldBy ''alice'' 500)
                 \<lparr>locks := (locks (mockHeldBy ''alice'' 500))(''f1'' \<mapsto> ?carol)\<rparr>
               = mockHeldBy ''carol'' 900"
    "\<not> (ExpiresAt ?carol < 100 \<or> UserID ?carol = ''bob'')"
    "\<not> (ExpiresAt ?carol \<le> 100 \<or> UserID ?carol = ''bob'')"
    by (simp_all add: lock_example_defs)
  note c = AcquireLock_contract [where mgr = exampleManager and tbl = "tableHeldBy ''alice'' 500"
      and l = "mockHeldBy ''alice'' 500"]
  have a: "\<exists>s t. AcquireLock exampleManager (tableHeldBy ''alice'' 500) ''f1'' ''bob'' 600 = (Inr s, t)
       \<and> UserID s = ''bob'' \<and> ExpiresAt s = 900 \<and> items t ''f1'' = Some s"
    using c [where fileID = "''f1''" and uid = "''bob''" and now = 600] i1 ttl
    by (cases "AcquireLock exampleManager (tableHeldBy ''alice'' 500) ''f1'' ''bob'' 600") auto
  have b: "\<exists>s t. AcquireLock exampleManager (tableHeldBy ''alice'' 500) ''f1'' ''alice'' 100 = (Inr s, t)
       \<and> UserID s = ''alice'' \<and> ExpiresAt s = 400 \<and> items t ''f1'' = Some s"
    using c [where fileID = "''f1''" and uid = "''alice''" and now = 100] i1 ttl
    by (cases "AcquireLock exampleManager (tableHeldBy ''alice'' 500) ''f1'' ''alice'' 100") auto
  have d: "\<exists>s t. AcquireLock exampleManager (tableHeldBy ''alice'' 500) ''f2'' ''bob'' 100 = (Inr s, t)
       \<and> UserID s = ''bob'' \<and> ExpiresAt s = 400 \<and> items t ''f2'' = Some s"
    using c [where fileID = "''f2''" and uid = "''bob''" and now = 100] i2 ttl
    by (cases "AcquireLock exampleManager (tableHeldBy ''alice'' 500) ''f2'' ''bob'' 100") auto
  note refused = c [where fileID = "''f1''" and uid = "''bob''" and now = 100]
  have "\<not> (\<exists>s t. AcquireLock exampleManager (tableHeldBy ''alice'' 500) ''f1'' ''bob'' 100
                  = (Inr s, t))"
    using refused i1 by simp
  then obtain err t where
    err: "AcquireLock exampleManager (tableHeldBy ''alice'' 500) ''f1'' ''bob'' 100 = (Inl err, t)"
    by (cases "AcquireLock exampleManager (tableHeldBy ''alice'' 500) ''f1'' ''bob'' 100";
        cases "fst (AcquireLock exampleManager (tableHeldBy ''alice'' 500) ''f1'' ''bob'' 100)")
      auto
  with refused have t: "t = tableHeldBy ''alice'' 500"
    by blast
  from refused err other(3)
  have "AcquireLock exampleManager
          ((tableHeldBy ''alice'' 500)
             \<lparr>items := (items (tableHeldBy ''alice'' 500))(''f1'' \<mapsto> ?carol)\<rparr>) ''f1'' ''bob'' 100
        = (Inl err, (tableHeldBy ''alice'' 500)
             \<lparr>items := (items (tableHeldBy ''alice'' 500))(''f1'' \<mapsto> ?carol)\<rparr>)"
    by blast
  with err t other(1)
  have e: "\<exists>err. AcquireLock exampleManager (tableHeldBy ''alice'' 500) ''f1'' ''bob'' 100
         = (Inl err, tableHeldBy ''alice'' 500)
       \<and> AcquireLock exampleManager (tableHeldBy ''carol'' 900) ''f1'' ''bob'' 100
         = (Inl err, tableHeldBy ''carol'' 900)"
    by simp
  have f: "\<exists>s l'. MockLocker_AcquireLock (mockHeldBy ''alice'' 500) ''f1'' ''bob'' 500 = (Inr s, l')
       \<and> UserID s = ''bob'' \<and> ExpiresAt s = 800 \<and> locks l' ''f1'' = Some s"
    using c [where fileID = "''f1''" and uid = "''bob''" and now = 500] i3 ttl
    by (cases "MockLocker_AcquireLock (mockHeldBy ''alice'' 500) ''f1'' ''bob'' 500") auto
  have "\<not> (\<exists>s l'. MockLocker_AcquireLock (mockHeldBy ''alice'' 500) ''f1'' ''bob'' 100
                  = (Inr s, l'))"
    using refused i3 by simp
  then obtain merr l' where
    merr: "MockLocker_AcquireLock (mockHeldBy ''alice'' 500) ''f1'' ''bob'' 100 = (Inl merr, l')"
    by (cases "MockLocker_AcquireLock (mockHeldBy ''alice'' 500) ''f1'' ''bob'' 100";
        cases "fst (MockLocker_AcquireLock (mockHeldBy ''alice'' 500) ''f1'' ''bob'' 100)")
      auto
  with refused have l': "l' = mockHeldBy ''alice'' 500"
    by blast
  from refused merr other(4)
  have "MockLocker_AcquireLock
          ((mockHeldBy ''alice'' 500)
             \<lparr>locks := (locks (mockHeldBy ''alice'' 500))(''f1'' \<mapsto> ?carol)\<rparr>) ''f1'' ''bob'' 100
        = (Inl merr, (mockHeldBy ''alice'' 500)
             \<lparr>locks := (locks (mockHeldBy ''alice'' 500))(''f1'' \<mapsto> ?carol)\<rparr>)"
    by blast
  with merr l' other(2)
  have g: "\<exists>err. MockLocker_AcquireLock (mockHeldBy ''alice'' 500) ''f1'' ''bob'' 100
         = (Inl err, mockHeldBy ''alice'' 500)
       \<and> MockLocker_AcquireLock (mockHeldBy ''carol'' 900) ''f1'' ''bob'' 100
         = (Inl err, mockHeldBy ''carol'' 900)"
    by simp
  from a b d e f g show ?thesis
    by (intro conjI)
qed

subsection \<open>C3: Heartbeat\<close>

text \<open>
  C3, as stated: a heartbeat of the owner returns an expiry strictly greater than the
  stored one, and a heartbeat fails when no unexpired lock exists. Expiries are whole
  seconds: a heartbeat in the second of the acquisition (time 100, expiry 400) returns
  the expiry 400 again. And the owner's heartbeat on a lock that expired at 500, sent at
  1000 when \<open>GetLockStatus\<close> reports no lock, succeeds and sets the expiry to 1300.
\<close>

theorem Heartbeat_same_second_counterexample:
  "(case MockLocker_AcquireLock NewMockLocker ''f1'' ''alice'' 100 of
      (r0, l1) \<Rightarrow>
        map_option ExpiresAt (locks l1 ''f1'') = Some 400
        \<and> (case MockLocker_Heartbeat l1 ''f1'' ''alice'' 100 of
              (Inl err, l2) \<Rightarrow> False
            | (Inr s, l2) \<Rightarrow> ExpiresAt s = 400 \<and> \<not> 400 < ExpiresAt s))
   \<and> (case AcquireLock exampleManager (tableHeldBy ''bob'' 50) ''f1'' ''alice'' 100 of
      (r0, t1) \<Rightarrow>
        map_option ExpiresAt (items t1 ''f1'') = Some 400
        \<and> (case Heartbeat exampleManager t1 ''f1'' ''alice'' 100 of
              (Inl err, t2) \<Rightarrow> False
            | (Inr s, t2) \<Rightarrow> ExpiresAt s = 400 \<and> \<not> 400 < ExpiresAt s))
   \<and> MockLocker_GetLockStatus (mockHeldBy ''alice'' 500) ''f1'' 1000 = Inr None
   \<and> (case MockLocker_Heartbeat (mockHeldBy ''alice'' 500) ''f1'' ''alice'' 1000 of
         (Inl err, l2) \<Rightarrow> False
       | (Inr s, l2) \<Rightarrow> ExpiresAt s = 1300 \<and> locks l2 ''f1'' = Some s)
   \<and> GetLockStatus exampleManager (tableHeldBy ''alice'' 500) ''f1'' 1000 = Inr None
   \<and> (case Heartbeat exampleManager (tableHeldBy ''alice'' 500) ''f1'' ''alice'' 1000 of
         (Inl err, t2) \<Rightarrow> False
       | (Inr s, t2) \<Rightarrow> ExpiresAt s = 1300 \<and> items t2 ''f1'' = Some s)"
  by (simp add: MockLocker_AcquireLock_def MockLocker_Heartbeat_def AcquireLock_def
      Heartbeat_def MockLocker_GetLockStatus_def GetLockStatus_def lock_example_defs Let_def)

text \<open>
  C3, amended: for every lock state and every call \<open>Heartbeat(fileID, userID)\<close> at time
  \<open>now\<close>: the call fails and leaves the store unchanged (it installs nothing) when no
  record exists for \<open>fileID\<close> or the record's owner differs from \<open>userID\<close>; when a record
  exists and is owned by \<open>userID\<close>, expired or not, the call succeeds, stores and returns
  the record with expiry \<open>now\<close> plus the time to live. For a stored expiry written at time
  \<open>t0\<close> with the same time to live, the returned expiry is at least the stored one
  exactly when \<open>t0 \<le> now\<close>, and strictly greater exactly when \<open>t0 < now\<close>.
\<close>

theorem Heartbeat_contract:
  "(case items tbl fileID of
      None \<Rightarrow> (\<exists>text. Heartbeat mgr tbl fileID uid now = (Inl (Errorf text), tbl))
    | Some e \<Rightarrow>
        if UserID e \<noteq> uid
        then (\<exists>text. Heartbeat mgr tbl fileID uid now = (Inl (Errorf text), tbl))
        else (\<exists>s. Heartbeat mgr tbl fileID uid now
                     = (Inr s, tbl\<lparr>items := (items tbl)(fileID \<mapsto> s)\<rparr>)
                \<and> s = e\<lparr>ExpiresAt := now + ttlSeconds mgr\<rparr>
                \<and> (\<forall>t0. ExpiresAt e = t0 + ttlSeconds mgr \<longrightarrow>
                      (ExpiresAt e < ExpiresAt s \<longleftrightarrow> t0 < now)
                      \<and> (ExpiresAt e \<le> ExpiresAt s \<longleftrightarrow> t0 \<le> now))))
   \<and> (case locks l fileID of
      None \<Rightarrow> (\<exists>text. MockLocker_Heartbeat l fileID uid now = (Inl (Errorf text), l))
    | Some e \<Rightarrow>
        if UserID e \<noteq> uid
        then (\<exists>text. MockLocker_Heartbeat l fileID uid now = (Inl (Errorf text), l))
        else (\<exists>s. MockLocker_Heartbeat l fileID uid now
                     = (Inr s, l\<lparr>locks := (locks l)(fileID \<mapsto> s)\<rparr>)
                \<and> s = e\<lparr>ExpiresAt := now + ttlDuration l\<rparr>
                \<and> (\<forall>t0. ExpiresAt e = t0 + ttlDuration l \<longrightarrow>
                      (ExpiresAt e < ExpiresAt s \<longleftrightarrow> t0 < now)
                      \<and> (ExpiresAt e \<le> ExpiresAt s \<longleftrightarrow> t0 \<le> now))))"
  by (auto simp: Heartbeat_def MockLocker_Heartbeat_def Let_def split: option.splits)

theorem Heartbeat_contract_witness:
  "(\<exists>text. Heartbeat exampleManager (tableHeldBy ''alice'' 500) ''f2'' ''alice'' 300
        = (Inl (Errorf text), tableHeldBy ''alice'' 500))
   \<and> (\<exists>text. Heartbeat exampleManager (tableHeldBy ''alice'' 500) ''f1'' ''bob'' 300
        = (Inl (Errorf text), tableHeldBy ''alice'' 500))
   \<and> (\<exists>s t. Heartbeat exampleManager (tableHeldBy ''alice'' 500) ''f1'' ''alice'' 300 = (Inr s, t)
        \<and> ExpiresAt s = 600 \<and> 500 < ExpiresAt s \<and> items t ''f1'' = Some s)
   \<and> (\<exists>text. MockLocker_Heartbeat (mockHeldBy ''alice'' 500) ''f2'' ''alice'' 300
        = (Inl (Errorf text), mockHeldBy ''alice'' 500))
   \<and> (\<exists>text. MockLocker_Heartbeat (mockHeldBy ''alice'' 500) ''f1'' ''bob'' 300
        = (Inl (Errorf text), mockHeldBy ''alice'' 500))
   \<and> (\<exists>s l'. MockLocker_Heartbeat (mockHeldBy ''alice'' 500) ''f1'' ''alice'' 300 = (Inr s, l')
        \<and> ExpiresAt s = 600 \<and> 500 < ExpiresAt s \<and> locks l' ''f1'' = Some s)"
proof -
  have i1: "items (tableHeldBy ''alice'' 500) ''f1''
             = Some \<lparr>FileID = ''f1'', UserID = ''alice'', ExpiresAt = 500\<rparr>"
    and i2: "items (tableHeldBy ''alice'' 500) ''f2'' = None"
    and i3: "locks (mockHeldBy ''alice'' 500) ''f1''
             = Some \<lparr>FileID = ''f1'', UserID = ''alice'', ExpiresAt = 500\<rparr>"
    and i4: "locks (mockHeldBy ''alice'' 500) ''f2'' = None"
    and ttl: "ttlSeconds exampleManager = 300" "ttlDuration (mockHeldBy ''alice'' 500) = 300"
    by (simp_all add: lock_example_defs)
  note c = Heartbeat_contract [where mgr = exampleManager and tbl = "tableHeldBy ''alice'' 500"
      and l = "mockHeldBy ''alice'' 500" and now = 300]
  show ?thesis
    using c [where fileID = "''f2''" and uid = "''alice''"]
      c [where fileID = "''f1''" and uid = "''bob''"]
      c [where fileID = "''f1''" and uid = "''alice''"]
    by (simp add: i1 i2 i3 i4 ttl)
qed


section \<open>The claim about storage providers\<close>

lemmas provider_example_defs = exampleAuth_def GetUserToken_def GetClient_def
  currentBaseFolder_def NewProvider_def NewMemoryAdapter_def NewDriveAdapter_def

subsection \<open>Calls of the caching provider\<close>

lemma cacheLive_NewProvider: "cacheLive (NewProvider svc) heap"
  by (simp add: cacheLive_def NewProvider_def)

lemma GetAdapter_step:
  assumes live: "cacheLive p heap" and call: "GetAdapter p heap uid = (r, p1, heap1)"
  shows "\<exists>a. r = Inr a \<and> a < length heap1
         \<and> stores p1 = (stores p)(uid \<mapsto> a) \<and> authService p1 = authService p
         \<and> cacheLive p1 heap1
         \<and> (case stores p uid of
              Some cached \<Rightarrow> a = cached \<and> length heap1 = length heap
                 \<and> files (heap1 ! a) = files (heap ! a) \<and> userID (heap1 ! a) = userID (heap ! a)
            | None \<Rightarrow> a = length heap \<and> length heap1 = Suc (length heap)
                 \<and> files (heap1 ! a) = [] \<and> userID (heap1 ! a) = uid)
         \<and> (\<forall>b < length heap. b \<noteq> a \<longrightarrow> heap1 ! b = heap ! b)
         \<and> BaseFolderID (heap1 ! a) =
             (case currentBaseFolder p uid of
                Some b \<Rightarrow> b
              | None \<Rightarrow> (case stores p uid of
                           Some cached \<Rightarrow> BaseFolderID (heap ! cached) | None \<Rightarrow> ''''))"
proof (cases "stores p uid")
  case None
  let ?base = "case currentBaseFolder p uid of None \<Rightarrow> [] | Some b \<Rightarrow> b"
  from None call have r: "r = Inr (length heap)"
    and p1: "p1 = p\<lparr>stores := (stores p)(uid \<mapsto> length heap)\<rparr>"
    and heap1: "heap1 = heap @ [\<lparr>userID = uid, files = [], BaseFolderID = ?base\<rparr>]"
    by (auto simp: GetAdapter_def Let_def currentBaseFolder_def NewMemoryAdapter_def
        split: option.splits sum.splits)
  from live have "cacheLive p1 heap1"
    unfolding p1 heap1 cacheLive_def by (auto simp: less_Suc_eq)
  with None show ?thesis
    unfolding r p1 heap1 by (simp add: nth_append split: option.splits)
next
  case (Some c)
  with live have c: "c < length heap"
    by (auto simp: cacheLive_def)
  from Some call have r: "r = Inr c" and p1: "p1 = p"
    and heap1: "heap1 = (case currentBaseFolder p uid of
                           None \<Rightarrow> heap
                         | Some b \<Rightarrow> heap[c := (heap ! c)\<lparr>BaseFolderID := b\<rparr>])"
    by (auto simp: GetAdapter_def Let_def split: option.splits)
  from Some have same: "(stores p)(uid \<mapsto> c) = stores p"
    by (simp add: fun_upd_idem)
  from live have "cacheLive p1 heap1"
    unfolding p1 heap1 cacheLive_def by (auto split: option.splits)
  with Some c same show ?thesis
    unfolding r p1 heap1 by (cases "currentBaseFolder p uid") simp_all
qed

lemma card_new_tenants:
  assumes "finite R"
  shows "card (insert u R - D) = (if u \<in> D then 0 else 1) + card (R - insert u D)"
proof (cases "u \<in> D")
  case True
  then have "insert u R - D = R - insert u D"
    by auto
  then have "card (insert u R - D) = card (R - insert u D)"
    by (rule arg_cong)
  with True show ?thesis
    by (simp only: if_True add_0)
next
  case False
  then have eq: "insert u R - D = insert u (R - insert u D)"
    by auto
  have "u \<notin> R - insert u D"
    by blast
  moreover from assms have "finite (R - insert u D)"
    by (rule finite_Diff)
  ultimately have "card (insert u (R - insert u D)) = Suc (card (R - insert u D))"
    by (rule card_insert_disjoint [rotated])
  with False show ?thesis
    unfolding eq by (simp only: if_False plus_1_eq_Suc)
qed

lemma GetAdapterCalls_run:
  assumes "cacheLive p heap" and "GetAdapterCalls p heap calls = (rs, p', heap')"
  shows "length rs = length calls \<and> cacheLive p' heap'
        \<and> (\<forall>i < length calls. \<exists>a. rs ! i = Inr a \<and> a < length heap'
               \<and> stores p' (snd (calls ! i)) = Some a)
        \<and> (\<forall>u a. stores p u = Some a \<longrightarrow> stores p' u = Some a)
        \<and> length heap' = length heap + card (snd ` set calls - dom (stores p))
        \<and> (\<forall>b < length heap. files (heap' ! b) = files (heap ! b)
               \<and> userID (heap' ! b) = userID (heap ! b))"
  using assms
proof (induction calls arbitrary: p heap rs p' heap')
  case Nil
  then show ?case by simp
next
  case (Cons c calls)
  obtain svc uid where c: "c = (svc, uid)" by (cases c)
  let ?p0 = "p\<lparr>authService := svc\<rparr>"
  obtain r p1 heap1 where first: "GetAdapter ?p0 heap uid = (r, p1, heap1)"
    by (cases "GetAdapter ?p0 heap uid") auto
  obtain rs' p2 heap2 where rest: "GetAdapterCalls p1 heap1 calls = (rs', p2, heap2)"
    by (cases "GetAdapterCalls p1 heap1 calls") auto
  from Cons.prems(2) first rest have res: "rs = r # rs'" "p' = p2" "heap' = heap2"
    unfolding c by simp_all
  from Cons.prems(1) have live0: "cacheLive ?p0 heap"
    by (simp add: cacheLive_def)
  from GetAdapter_step [OF live0 first] obtain a where
    step: "r = Inr a \<and> a < length heap1
         \<and> stores p1 = (stores ?p0)(uid \<mapsto> a) \<and> authService p1 = authService ?p0
         \<and> cacheLive p1 heap1
         \<and> (case stores ?p0 uid of
              Some cached \<Rightarrow> a = cached \<and> length heap1 = length heap
                 \<and> files (heap1 ! a) = files (heap ! a) \<and> userID (heap1 ! a) = userID (heap ! a)
            | None \<Rightarrow> a = length heap \<and> length heap1 = Suc (length heap)
                 \<and> files (heap1 ! a) = [] \<and> userID (heap1 ! a) = uid)
         \<and> (\<forall>b < length heap. b \<noteq> a \<longrightarrow> heap1 ! b = heap ! b)
         \<and> BaseFolderID (heap1 ! a) =
             (case currentBaseFolder ?p0 uid of
                Some b \<Rightarrow> b
              | None \<Rightarrow> (case stores ?p0 uid of
                           Some cached \<Rightarrow> BaseFolderID (heap ! cached) | None \<Rightarrow> ''''))" ..
  then have a: "r = Inr a" "a < length heap1" "stores p1 = (stores p)(uid \<mapsto> a)"
    "cacheLive p1 heap1"
    and cases: "case stores p uid of
              Some cached \<Rightarrow> a = cached \<and> length heap1 = length heap
                 \<and> files (heap1 ! a) = files (heap ! a) \<and> userID (heap1 ! a) = userID (heap ! a)
            | None \<Rightarrow> a = length heap \<and> length heap1 = Suc (length heap)
                 \<and> files (heap1 ! a) = [] \<and> userID (heap1 ! a) = uid"
    and frame: "\<forall>b < length heap. b \<noteq> a \<longrightarrow> heap1 ! b = heap ! b"
    by simp_all
  note ih = Cons.IH [OF a(4) rest]
  from ih have
    len: "length rs' = length calls" and live2: "cacheLive p2 heap2"
    and each: "\<forall>i < length calls. \<exists>a. rs' ! i = Inr a \<and> a < length heap2
               \<and> stores p2 (snd (calls ! i)) = Some a"
    and keep: "\<forall>u a. stores p1 u = Some a \<longrightarrow> stores p2 u = Some a"
    and size: "length heap2 = length heap1 + card (snd ` set calls - dom (stores p1))"
    and same: "\<forall>b < length heap1. files (heap2 ! b) = files (heap1 ! b)
               \<and> userID (heap2 ! b) = userID (heap1 ! b)"
    by blast+
  have grow: "length heap \<le> length heap1" "length heap1 \<le> length heap2"
    using cases size by (auto split: option.splits)
  have h1: "length heap1 = length heap + (if uid \<in> dom (stores p) then 0 else 1)"
    using cases by (auto split: option.splits)
  have kept: "stores p u = Some b \<Longrightarrow> stores p1 u = Some b" for u b
    using a(3) cases by (auto split: option.splits)
  have "length (r # rs') = length (c # calls)"
    using len by simp
  moreover have "\<forall>i < length (c # calls). \<exists>a. (r # rs') ! i = Inr a \<and> a < length heap2
               \<and> stores p2 (snd ((c # calls) ! i)) = Some a"
  proof (intro allI impI)
    fix i
    assume i: "i < length (c # calls)"
    show "\<exists>a. (r # rs') ! i = Inr a \<and> a < length heap2
               \<and> stores p2 (snd ((c # calls) ! i)) = Some a"
    proof (cases i)
      case 0
      from a(3) keep have "stores p2 uid = Some a"
        by simp
      with 0 a(1,2) grow(2) show ?thesis
        by (simp add: c)
    next
      case (Suc j)
      with i each show ?thesis
        by simp
    qed
  qed
  moreover have "\<forall>u b. stores p u = Some b \<longrightarrow> stores p2 u = Some b"
    using kept keep by blast
  moreover have "length heap2 = length heap + card (snd ` set (c # calls) - dom (stores p))"
  proof -
    have "dom (stores p1) = insert uid (dom (stores p))"
      using a(3) by simp
    with size h1 card_new_tenants [of "snd ` set calls" uid "dom (stores p)"]
    show ?thesis
      by (simp add: c)
  qed
  moreover have "\<forall>b < length heap. files (heap2 ! b) = files (heap ! b)
               \<and> userID (heap2 ! b) = userID (heap ! b)"
  proof (intro allI impI)
    fix b
    assume b: "b < length heap"
    with grow have "b < length heap1"
      by simp
    with same have "files (heap2 ! b) = files (heap1 ! b) \<and> userID (heap2 ! b) = userID (heap1 ! b)"
      by blast
    moreover have "files (heap1 ! b) = files (heap ! b) \<and> userID (heap1 ! b) = userID (heap ! b)"
    proof (cases "b = a")
      case True
      with b cases show ?thesis
        by (auto split: option.splits)
    next
      case False
      with b frame show ?thesis
        by simp
    qed
    ultimately show "files (heap2 ! b) = files (heap ! b) \<and> userID (heap2 ! b) = userID (heap ! b)"
      by simp
  qed
  ultimately show ?case
    using live2 unfolding res by (intro conjI) assumption+
qed

subsection \<open>C8: one adapter per tenant\<close>

text \<open>
  C8, as stated, for every storage provider: two \<open>GetAdapter\<close> calls for one tenant
  return the same adapter instance. The provider of package googledrive keeps no cache:
  the first call for \<open>u1\<close> returns the adapter at address 0, the second call allocates
  another adapter and returns address 1.
\<close>

theorem Drive_GetAdapter_counterexample:
  "Drive_GetAdapter \<lparr>driveAuthService = exampleAuth ''B''\<rparr> [] ''u1''
     = (Inr 0, [\<lparr>service = ''refresh'', DriveBaseFolderID = ''B''\<rparr>])
   \<and> Drive_GetAdapter \<lparr>driveAuthService = exampleAuth ''B''\<rparr>
        [\<lparr>service = ''refresh'', DriveBaseFolderID = ''B''\<rparr>] ''u1''
     = (Inr 1, [\<lparr>service = ''refresh'', DriveBaseFolderID = ''B''\<rparr>,
                \<lparr>service = ''refresh'', DriveBaseFolderID = ''B''\<rparr>])"
  by (simp add: Drive_GetAdapter_def provider_example_defs)

text \<open>
  C8, amended: the provider of package memory caches exactly one adapter per tenant.
  When every cached pointer is live (as in a new provider, \<open>cacheLive_NewProvider\<close>), a
  \<open>GetAdapter\<close> call returns the tenant's cached adapter, or on a miss a new adapter at
  a fresh address that it caches; it changes no other cache entry and no other adapter,
  keeps the files and the owner of a cached adapter, leaves every cached pointer live,
  and sets the returned adapter's base folder to the tenant's currently configured one
  whenever the auth service is present and the token lookup succeeds (otherwise the base
  folder stays, empty for a new adapter). So in every run of calls, the auth data
  changing at will in between, all calls for one tenant return the same address, a cache
  entry never changes, one adapter is created for each new tenant and none by any other
  call, and the adapters present before the run keep their files and owners. The
  provider of package googledrive builds a new adapter at a fresh address on every
  successful call, with the base folder read at that call.
\<close>

theorem GetAdapter_caches:
  assumes "cacheLive p heap"
  shows "(\<forall>r p1 heap1. GetAdapter p heap uid = (r, p1, heap1) \<longrightarrow>
            (\<exists>a. r = Inr a \<and> a < length heap1
               \<and> stores p1 = (stores p)(uid \<mapsto> a) \<and> authService p1 = authService p
               \<and> cacheLive p1 heap1
               \<and> (case stores p uid of
                    Some cached \<Rightarrow> a = cached \<and> length heap1 = length heap
                       \<and> files (heap1 ! a) = files (heap ! a)
                       \<and> userID (heap1 ! a) = userID (heap ! a)
                  | None \<Rightarrow> a = length heap \<and> length heap1 = Suc (length heap)
                       \<and> files (heap1 ! a) = [] \<and> userID (heap1 ! a) = uid)
               \<and> (\<forall>b < length heap. b \<noteq> a \<longrightarrow> heap1 ! b = heap ! b)
               \<and> BaseFolderID (heap1 ! a) =
                   (case currentBaseFolder p uid of
                      Some b \<Rightarrow> b
                    | None \<Rightarrow> (case stores p uid of
                                 Some cached \<Rightarrow> BaseFolderID (heap ! cached)
                               | None \<Rightarrow> ''''))))
       \<and> (\<forall>rs p' heap'. GetAdapterCalls p heap calls = (rs, p', heap') \<longrightarrow>
            length rs = length calls \<and> cacheLive p' heap'
            \<and> (\<forall>i < length calls. \<exists>a. rs ! i = Inr a \<and> a < length heap'
                   \<and> stores p' (snd (calls ! i)) = Some a)
            \<and> (\<forall>i < length calls. \<forall>j < length calls.
                   snd (calls ! i) = snd (calls ! j) \<longrightarrow> rs ! i = rs ! j)
            \<and> (\<forall>u a. stores p u = Some a \<longrightarrow> stores p' u = Some a)
            \<and> length heap' = length heap + card (snd ` set calls - dom (stores p))
            \<and> (\<forall>b < length heap. files (heap' ! b) = files (heap ! b)
                   \<and> userID (heap' ! b) = userID (heap ! b)))
       \<and> (\<forall>a dheap'. Drive_GetAdapter dp dheap uid = (Inr a, dheap') \<longrightarrow>
               a = length dheap \<and> length dheap' = Suc (length dheap)
               \<and> (\<forall>b < length dheap. dheap' ! b = dheap ! b)
               \<and> DriveBaseFolderID (dheap' ! a) =
                   (case GetUserToken (driveAuthService dp) uid of
                      Inl err \<Rightarrow> '''' | Inr token \<Rightarrow> TokenBaseFolderID token))"
proof (intro conjI)
  show "\<forall>r p1 heap1. GetAdapter p heap uid = (r, p1, heap1) \<longrightarrow>
            (\<exists>a. r = Inr a \<and> a < length heap1
               \<and> stores p1 = (stores p)(uid \<mapsto> a) \<and> authService p1 = authService p
               \<and> cacheLive p1 heap1
               \<and> (case stores p uid of
                    Some cached \<Rightarrow> a = cached \<and> length heap1 = length heap
                       \<and> files (heap1 ! a) = files (heap ! a)
                       \<and> userID (heap1 ! a) = userID (heap ! a)
                  | None \<Rightarrow> a = length heap \<and> length heap1 = Suc (length heap)
                       \<and> files (heap1 ! a) = [] \<and> userID (heap1 ! a) = uid)
               \<and> (\<forall>b < length heap. b \<noteq> a \<longrightarrow> heap1 ! b = heap ! b)
               \<and> BaseFolderID (heap1 ! a) =
                   (case currentBaseFolder p uid of
                      Some b \<Rightarrow> b
                    | None \<Rightarrow> (case stores p uid of
                                 Some cached \<Rightarrow> BaseFolderID (heap ! cached)
                               | None \<Rightarrow> '''')))"
    by (intro allI impI) (rule GetAdapter_step [OF assms])
next
  show "\<forall>rs p' heap'. GetAdapterCalls p heap calls = (rs, p', heap') \<longrightarrow>
            length rs = length calls \<and> cacheLive p' heap'
            \<and> (\<forall>i < length calls. \<exists>a. rs ! i = Inr a \<and> a < length heap'
                   \<and> stores p' (snd (calls ! i)) = Some a)
            \<and> (\<forall>i < length calls. \<forall>j < length calls.
                   snd (calls ! i) = snd (calls ! j) \<longrightarrow> rs ! i = rs ! j)
            \<and> (\<forall>u a. stores p u = Some a \<longrightarrow> stores p' u = Some a)
            \<and> length heap' = length heap + card (snd ` set calls - dom (stores p))
            \<and> (\<forall>b < length heap. files (heap' ! b) = files (heap ! b)
                   \<and> userID (heap' ! b) = userID (heap ! b))"
  proof (intro allI impI)
    fix rs p' heap'
    assume "GetAdapterCalls p heap calls = (rs, p', heap')"
    note run = GetAdapterCalls_run [OF assms this]
    then have each: "\<forall>i < length calls. \<exists>a. rs ! i = Inr a \<and> a < length heap'
                   \<and> stores p' (snd (calls ! i)) = Some a"
      by blast
    have same: "\<forall>i < length calls. \<forall>j < length calls.
          snd (calls ! i) = snd (calls ! j) \<longrightarrow> rs ! i = rs ! j"
    proof (intro allI impI)
      fix i j
      assume "i < length calls" "j < length calls" "snd (calls ! i) = snd (calls ! j)"
      with each show "rs ! i = rs ! j"
        by (metis option.inject)
    qed
    show "length rs = length calls \<and> cacheLive p' heap'
            \<and> (\<forall>i < length calls. \<exists>a. rs ! i = Inr a \<and> a < length heap'
                   \<and> stores p' (snd (calls ! i)) = Some a)
            \<and> (\<forall>i < length calls. \<forall>j < length calls.
                   snd (calls ! i) = snd (calls ! j) \<longrightarrow> rs ! i = rs ! j)
            \<and> (\<forall>u a. stores p u = Some a \<longrightarrow> stores p' u = Some a)
            \<and> length heap' = length heap + card (snd ` set calls - dom (stores p))
            \<and> (\<forall>b < length heap. files (heap' ! b) = files (heap ! b)
                   \<and> userID (heap' ! b) = userID (heap ! b))"
      by (intro conjI) (use run same in blast)+
  qed
next
  show "\<forall>a dheap'. Drive_GetAdapter dp dheap uid = (Inr a, dheap') \<longrightarrow>
               a = length dheap \<and> length dheap' = Suc (length dheap)
               \<and> (\<forall>b < length dheap. dheap' ! b = dheap ! b)
               \<and> DriveBaseFolderID (dheap' ! a) =
                   (case GetUserToken (driveAuthService dp) uid of
                      Inl err \<Rightarrow> '''' | Inr token \<Rightarrow> TokenBaseFolderID token)"
    by (auto simp: Drive_GetAdapter_def NewDriveAdapter_def Let_def nth_append
        split: sum.splits)
qed

theorem GetAdapter_caches_witness:
  "cacheLive (NewProvider (Some (exampleAuth ''B''))) []
   \<and> (\<exists>p1 heap1 p2 heap2.
        GetAdapter (NewProvider (Some (exampleAuth ''B''))) [] ''u1'' = (Inr 0, p1, heap1)
        \<and> BaseFolderID (heap1 ! 0) = ''B'' \<and> cacheLive p1 heap1
        \<and> GetAdapter (p1\<lparr>authService := Some (exampleAuth ''B2'')\<rparr>) heap1 ''u1''
            = (Inr 0, p2, heap2)
        \<and> length heap2 = 1 \<and> BaseFolderID (heap2 ! 0) = ''B2'')
   \<and> (\<exists>p' heap'.
        GetAdapterCalls (NewProvider (Some (exampleAuth ''B''))) []
            [(Some (exampleAuth ''B''), ''u1''), (Some (exampleAuth ''B''), ''u2''),
             (Some (exampleAuth ''B2''), ''u1'')]
          = ([Inr 0, Inr 1, Inr 0], p', heap')
        \<and> length heap' = 2 \<and> cacheLive p' heap'
        \<and> stores p' ''u1'' = Some 0 \<and> stores p' ''u2'' = Some 1
        \<and> map userID heap' = [''u1'', ''u2''] \<and> map BaseFolderID heap' = [''B2'', ''''])
   \<and> (\<exists>dheap'. Drive_GetAdapter \<lparr>driveAuthService = exampleAuth ''B''\<rparr> [] ''u1'' = (Inr 0, dheap')
      \<and> length dheap' = 1 \<and> DriveBaseFolderID (dheap' ! 0) = ''B'')"
proof -
  let ?p = "NewProvider (Some (exampleAuth ''B''))"
  let ?dp = "\<lparr>driveAuthService = exampleAuth ''B''\<rparr>"
  let ?calls = "[(Some (exampleAuth ''B''), ''u1''), (Some (exampleAuth ''B''), ''u2''),
                 (Some (exampleAuth ''B2''), ''u1'')]"
  have live: "cacheLive ?p []"
    by (rule cacheLive_NewProvider)
  obtain r1 p1 heap1 where c1: "GetAdapter ?p [] ''u1'' = (r1, p1, heap1)"
    by (cases "GetAdapter ?p [] ''u1''") auto
  then have e1: "r1 = Inr 0" "length heap1 = 1" "BaseFolderID (heap1 ! 0) = ''B''"
    by (auto simp: GetAdapter_def provider_example_defs Let_def)
  from GetAdapter_caches [OF live, of "''u1''"] c1
  have live1: "cacheLive p1 heap1" and st1: "stores p1 ''u1'' = Some 0"
    unfolding e1 by auto
  let ?q = "p1\<lparr>authService := Some (exampleAuth ''B2'')\<rparr>"
  from live1 have liveq: "cacheLive ?q heap1"
    by (simp add: cacheLive_def)
  obtain r2 p2 heap2 where c2: "GetAdapter ?q heap1 ''u1'' = (r2, p2, heap2)"
    by (cases "GetAdapter ?q heap1 ''u1''") auto
  have cur: "currentBaseFolder ?q ''u1'' = Some ''B2''"
    by (simp add: provider_example_defs)
  from GetAdapter_caches [OF liveq, of "''u1''"] c2 st1 cur e1(2)
  have e2: "r2 = Inr 0" "length heap2 = 1" "BaseFolderID (heap2 ! 0) = ''B2''"
    by auto
  from c1 c2 e1 e2 live1
  have single: "\<exists>p1 heap1 p2 heap2.
        GetAdapter ?p [] ''u1'' = (Inr 0, p1, heap1)
        \<and> BaseFolderID (heap1 ! 0) = ''B'' \<and> cacheLive p1 heap1
        \<and> GetAdapter (p1\<lparr>authService := Some (exampleAuth ''B2'')\<rparr>) heap1 ''u1''
            = (Inr 0, p2, heap2)
        \<and> length heap2 = 1 \<and> BaseFolderID (heap2 ! 0) = ''B2''"
    by auto
  obtain rs p' heap' where run: "GetAdapterCalls ?p [] ?calls = (rs, p', heap')"
    by (cases "GetAdapterCalls ?p [] ?calls") auto
  then have ev: "rs = [Inr 0, Inr 1, Inr 0]" "stores p' ''u1'' = Some 0"
    "stores p' ''u2'' = Some 1" "map userID heap' = [''u1'', ''u2'']"
    "map BaseFolderID heap' = [''B2'', '''']"
    by (auto simp: GetAdapter_def provider_example_defs Let_def)
  from GetAdapter_caches [OF live, of _ ?calls] run
  have after: "cacheLive p' heap'"
    "length heap' = length ([] :: MemoryAdapter list) + card (snd ` set ?calls - dom (stores ?p))"
    by blast+
  from after(2) have two: "length heap' = 2"
    by (simp add: NewProvider_def card_insert_if)
  from run ev two after(1)
  have many: "\<exists>p' heap'. GetAdapterCalls ?p [] ?calls = ([Inr 0, Inr 1, Inr 0], p', heap')
        \<and> length heap' = 2 \<and> cacheLive p' heap'
        \<and> stores p' ''u1'' = Some 0 \<and> stores p' ''u2'' = Some 1
        \<and> map userID heap' = [''u1'', ''u2''] \<and> map BaseFolderID heap' = [''B2'', '''']"
    by auto
  obtain dr dheap' where d: "Drive_GetAdapter ?dp [] ''u1'' = (dr, dheap')"
    by (cases "Drive_GetAdapter ?dp [] ''u1''") auto
  from d have dr: "dr = Inr 0"
    by (auto simp: Drive_GetAdapter_def provider_example_defs)
  have tok: "GetUserToken (driveAuthService ?dp) ''u1''
      = Inr \<lparr>EncryptedRefreshToken = ''sealed'', TokenBaseFolderID = ''B''\<rparr>"
    by (simp add: provider_example_defs)
  from GetAdapter_caches [OF live, where dp = ?dp and dheap = "[]" and uid = "''u1''"] d dr tok
  have dv: "length dheap' = 1 \<and> DriveBaseFolderID (dheap' ! 0) = ''B''"
    by auto
  with d dr have drive: "\<exists>dheap'. Drive_GetAdapter ?dp [] ''u1'' = (Inr 0, dheap')
      \<and> length dheap' = 1 \<and> DriveBaseFolderID (dheap' ! 0) = ''B''"
    by auto
  from live single many drive show ?thesis
    by (intro conjI)
qed

end
